theory Spec2Isabelle
  imports Main "HOL-Library.Sublist"
begin

section \<open>Go library functions used by the workflows\<close>

text \<open>
  The three workflows of \<^verbatim>\<open>main.go\<close> (\<^verbatim>\<open>initCmd\<close>, \<^verbatim>\<open>transferCmd\<close>, \<^verbatim>\<open>cloneCmd\<close>)
  build their file names and command lines with a handful of functions of Go's
  standard library. They are modelled here after the library's own code, on
  byte strings, for the Unix build of \<^verbatim>\<open>path/filepath\<close> (separator \<^verbatim>\<open>/\<close>, no
  volume names), the platform the tool is written for.
\<close>

subsection \<open>Package strings\<close>

definition HasPrefix :: "string \<Rightarrow> string \<Rightarrow> bool" where
  "HasPrefix s pre = (length s \<ge> length pre \<and> take (length pre) s = pre)"

definition HasSuffix :: "string \<Rightarrow> string \<Rightarrow> bool" where
  "HasSuffix s suf = (length s \<ge> length suf \<and> drop (length s - length suf) s = suf)"

definition TrimPrefix :: "string \<Rightarrow> string \<Rightarrow> string" where
  "TrimPrefix s pre = (if HasPrefix s pre then drop (length pre) s else s)"

definition TrimSuffix :: "string \<Rightarrow> string \<Rightarrow> string" where
  "TrimSuffix s suf = (if HasSuffix s suf then take (length s - length suf) s else s)"

text \<open>\<^verbatim>\<open>strings.Index\<close>: the position of the first occurrence of \<open>sep\<close>, if any.\<close>

fun Index :: "string \<Rightarrow> string \<Rightarrow> nat option" where
  "Index [] sep = (if sep = [] then Some 0 else None)"
| "Index (c # cs) sep =
     (if HasPrefix (c # cs) sep then Some 0 else map_option Suc (Index cs sep))"

text \<open>
  \<^verbatim>\<open>strings.SplitN(s, sep, n)\<close> for a non-empty separator and \<open>n \<ge> 0\<close>
  (\<^verbatim>\<open>genSplit\<close> with \<^verbatim>\<open>sepSave = 0\<close>): at most \<open>n\<close> pieces, the last one the
  unsplit remainder. \<open>split_upto k s sep\<close> is the loop that cuts at most \<open>k\<close>
  times.
\<close>

fun split_upto :: "nat \<Rightarrow> string \<Rightarrow> string \<Rightarrow> string list" where
  "split_upto 0 s sep = [s]"
| "split_upto (Suc k) s sep =
     (case Index s sep of
        None \<Rightarrow> [s]
      | Some m \<Rightarrow> take m s # split_upto k (drop (m + length sep) s) sep)"

definition SplitN :: "string \<Rightarrow> string \<Rightarrow> nat \<Rightarrow> string list" where
  "SplitN s sep n =
     (if n = 0 then []
      else split_upto (min n (length s + 1) - 1) s sep)"

text \<open>\<^verbatim>\<open>strings.Join\<close>: the elements, with \<open>sep\<close> between neighbours.\<close>

fun strings_Join :: "string list \<Rightarrow> string \<Rightarrow> string" where
  "strings_Join [] sep = []"
| "strings_Join [e] sep = e"
| "strings_Join (e # es) sep = e @ sep @ strings_Join es sep"

subsection \<open>Package path/filepath (Unix)\<close>

definition IsPathSeparator :: "char \<Rightarrow> bool" where
  "IsPathSeparator c = (c = CHR ''/'')"

abbreviation element_of :: "string \<Rightarrow> string" where
  "element_of s \<equiv> takeWhile (\<lambda>c. \<not> IsPathSeparator c) s"

abbreviation after_element :: "string \<Rightarrow> string" where
  "after_element s \<equiv> dropWhile (\<lambda>c. \<not> IsPathSeparator c) s"

text \<open>
  The backtracking of \<^verbatim>\<open>Clean\<close> at a \<^verbatim>\<open>..\<close> element: after \<^verbatim>\<open>out.w--\<close> the write
  index moves left while it is above \<open>dotdot\<close> and not on a separator.
\<close>

function backtrack :: "string \<Rightarrow> nat \<Rightarrow> nat \<Rightarrow> nat" where
  "backtrack buf dotdot w =
     (if w > dotdot \<and> \<not> IsPathSeparator (buf ! w) then backtrack buf dotdot (w - 1) else w)"
  by pat_completeness auto
termination
  by (relation "measure (\<lambda>(buf, dotdot, w). w)") auto

declare backtrack.simps [simp del]

text \<open>
  One turn of the main loop of \<^verbatim>\<open>Clean\<close>, at the input byte \<open>c\<close> followed by
  \<open>cs\<close>. The buffer \<open>out\<close> holds the bytes written so far (\<^verbatim>\<open>out.w\<close> is its
  length). The four branches are the four cases of the source's \<^verbatim>\<open>switch\<close>, in
  its order: an empty element, a \<^verbatim>\<open>.\<close> element, a \<^verbatim>\<open>..\<close> element, a real
  element (copied whole by the inner loop). The result is the new buffer, the
  new \<open>dotdot\<close> and the input left to read, \<^verbatim>\<open>path[r:]\<close>.
\<close>

definition clean_step :: "bool \<Rightarrow> string \<Rightarrow> nat \<Rightarrow> char \<Rightarrow> string \<Rightarrow> string \<times> nat \<times> string" where
  "clean_step rooted out dotdot c cs =
     (if IsPathSeparator c then (out, dotdot, cs)
      else if c = CHR ''.'' \<and> (cs = [] \<or> IsPathSeparator (hd cs)) then (out, dotdot, cs)
      else if c = CHR ''.'' \<and> hd cs = CHR ''.'' \<and> (tl cs = [] \<or> IsPathSeparator (hd (tl cs))) then
        (if length out > dotdot then
           (take (backtrack out dotdot (length out - 1)) out, dotdot, tl cs)
         else if \<not> rooted then
           ((if length out > 0 then out @ ''/'' else out) @ ''..'',
            length ((if length out > 0 then out @ ''/'' else out) @ ''..''), tl cs)
         else (out, dotdot, tl cs))
      else
        ((if rooted \<and> length out \<noteq> 1 \<or> \<not> rooted \<and> length out \<noteq> 0 then out @ ''/'' else out)
           @ element_of (c # cs),
         dotdot, after_element (c # cs)))"

text \<open>The loop \<^verbatim>\<open>for r < n\<close>: it returns the final buffer and \<open>dotdot\<close>.\<close>

function clean_loop :: "bool \<Rightarrow> string \<Rightarrow> nat \<Rightarrow> string \<Rightarrow> string \<times> nat" where
  "clean_loop rooted out dotdot [] = (out, dotdot)"
| "clean_loop rooted out dotdot (c # cs) =
     clean_loop rooted (fst (clean_step rooted out dotdot c cs))
       (fst (snd (clean_step rooted out dotdot c cs)))
       (snd (snd (clean_step rooted out dotdot c cs)))"
  by pat_completeness auto
termination
proof (relation "measure (\<lambda>(rooted, out, dotdot, rest). length rest)", goal_cases)
  case 1
  show ?case by simp
next
  case (2 rooted out dotdot c cs)
  have "length (after_element cs) \<le> length cs"
    by (rule length_dropWhile_le)
  then have "length (snd (snd (clean_step rooted out dotdot c cs))) < length (c # cs)"
    by (simp add: clean_step_def less_Suc_eq_le)
  then show ?case by (simp add: case_prod_beta)
qed

definition Clean :: "string \<Rightarrow> string" where
  "Clean path =
     (if path = [] then ''.''
      else
        let rooted = IsPathSeparator (hd path);
            final = (if rooted then clean_loop True ''/'' 1 (tl path)
                     else clean_loop False [] 0 path)
        in if fst final = [] then ''.'' else fst final)"

text \<open>\<^verbatim>\<open>filepath.Join\<close>: empty elements before the first non-empty one are skipped.\<close>

fun Join :: "string list \<Rightarrow> string" where
  "Join [] = []"
| "Join (e # es) = (if e \<noteq> [] then Clean (strings_Join (e # es) ''/'') else Join es)"

text \<open>\<^verbatim>\<open>filepath.Dir\<close>: everything up to and including the last separator, cleaned.\<close>

definition Dir :: "string \<Rightarrow> string" where
  "Dir path = Clean (rev (dropWhile (\<lambda>c. \<not> IsPathSeparator c) (rev path)))"

text \<open>\<^verbatim>\<open>filepath.Base\<close>: the last element, trailing separators removed first.\<close>

definition Base :: "string \<Rightarrow> string" where
  "Base path =
     (if path = [] then ''.''
      else
        let stripped = rev (dropWhile IsPathSeparator (rev path));
            last_elem = rev (element_of (rev stripped))
        in if last_elem = [] then ''/'' else last_elem)"

subsection \<open>Package net/url\<close>

text \<open>
  \<^verbatim>\<open>url.Parse\<close> and \<^verbatim>\<open>URL.Hostname\<close>, after the library's code (Go 1.21). The
  record holds the fields of \<^verbatim>\<open>url.URL\<close> that parsing fills in; \<^verbatim>\<open>RawPath\<close> and
  \<^verbatim>\<open>RawFragment\<close>, hints that only \<^verbatim>\<open>URL.String\<close> reads, are left out. \<open>User\<close> is
  the user name with the password, if one is set.
\<close>

record url =
  Scheme :: string
  Opaque :: string
  User :: "(string \<times> string option) option"
  Host :: string
  Path :: string
  ForceQuery :: bool
  RawQuery :: string
  Fragment :: string
  OmitHost :: bool

definition empty_url :: url where
  "empty_url = \<lparr>Scheme = [], Opaque = [], User = None, Host = [], Path = [],
     ForceQuery = False, RawQuery = [], Fragment = [], OmitHost = False\<rparr>"

datatype url_error =
    InvalidControlCharacter
  | MissingProtocolScheme
  | FirstSegmentColon
  | EscapeError string
  | InvalidHostError string
  | MissingBracket
  | InvalidPort string
  | InvalidUserinfo

datatype encoding =
    encodePath
  | encodePathSegment
  | encodeHost
  | encodeZone
  | encodeUserPassword
  | encodeQueryComponent
  | encodeFragment

definition byte :: "char \<Rightarrow> nat" where
  "byte c = of_char c"

definition is_lower :: "char \<Rightarrow> bool" where
  "is_lower c = (byte (CHR ''a'') \<le> byte c \<and> byte c \<le> byte (CHR ''z''))"

definition is_upper :: "char \<Rightarrow> bool" where
  "is_upper c = (byte (CHR ''A'') \<le> byte c \<and> byte c \<le> byte (CHR ''Z''))"

definition is_digit :: "char \<Rightarrow> bool" where
  "is_digit c = (byte (CHR ''0'') \<le> byte c \<and> byte c \<le> byte (CHR ''9''))"

definition ishex :: "char \<Rightarrow> bool" where
  "ishex c = (is_digit c
      \<or> byte (CHR ''a'') \<le> byte c \<and> byte c \<le> byte (CHR ''f'')
      \<or> byte (CHR ''A'') \<le> byte c \<and> byte c \<le> byte (CHR ''F''))"

definition unhex :: "char \<Rightarrow> nat" where
  "unhex c =
     (if is_digit c then byte c - byte (CHR ''0'')
      else if byte (CHR ''a'') \<le> byte c \<and> byte c \<le> byte (CHR ''f'') then byte c - byte (CHR ''a'') + 10
      else if byte (CHR ''A'') \<le> byte c \<and> byte c \<le> byte (CHR ''F'') then byte c - byte (CHR ''A'') + 10
      else 0)"

text \<open>\<^verbatim>\<open>strings.ToLower\<close> on the bytes of a scheme (ASCII letters, digits, \<^verbatim>\<open>+-.\<close>).\<close>

definition ToLower :: "string \<Rightarrow> string" where
  "ToLower s = map (\<lambda>c. if is_upper c then char_of (byte c + 32) else c) s"

text \<open>\<^verbatim>\<open>strings.Cut\<close>: the text before and after the first \<open>sep\<close>.\<close>

definition Cut :: "string \<Rightarrow> string \<Rightarrow> string \<times> string" where
  "Cut s sep =
     (case Index s sep of
        Some i \<Rightarrow> (take i s, drop (i + length sep) s)
      | None \<Rightarrow> (s, []))"

text \<open>\<^verbatim>\<open>strings.LastIndex\<close> for a one-byte separator.\<close>

definition LastIndexByte :: "string \<Rightarrow> char \<Rightarrow> nat option" where
  "LastIndexByte s c =
     (if c \<in> set s then Some (length s - 1 - length (takeWhile (\<lambda>x. x \<noteq> c) (rev s)))
      else None)"

definition shouldEscape :: "char \<Rightarrow> encoding \<Rightarrow> bool" where
  "shouldEscape c mode =
     (if is_lower c \<or> is_upper c \<or> is_digit c then False
      else if (mode = encodeHost \<or> mode = encodeZone) \<and> c \<in> set (''!$&()*+,;=:[]<>'' @ [CHR 0x27, CHR 0x22])
        then False
      else if c \<in> set ''-_.~'' then False
      else if c \<in> set ''$&+,/:;=?@'' \<and> mode = encodePath then c = CHR ''?''
      else if c \<in> set ''$&+,/:;=?@'' \<and> mode = encodePathSegment then c \<in> set ''/;,?''
      else if c \<in> set ''$&+,/:;=?@'' \<and> mode = encodeUserPassword then c \<in> set ''@/?:''
      else if c \<in> set ''$&+,/:;=?@'' \<and> mode = encodeQueryComponent then True
      else if c \<in> set ''$&+,/:;=?@'' \<and> mode = encodeFragment then False
      else if mode = encodeFragment \<and> c \<in> set ''!()*'' then False
      else True)"

text \<open>
  \<^verbatim>\<open>unescape\<close>: percent-decoding. The source checks the whole string first and
  decodes afterwards; both passes run left to right, so the first malformed
  place decides the error and one pass gives the same result.
\<close>

function unescape :: "string \<Rightarrow> encoding \<Rightarrow> url_error + string" where
  "unescape [] mode = Inr []"
| "unescape (c # cs) mode =
     (if c = CHR ''%'' then
        (if length cs < 2 \<or> \<not> ishex (cs ! 0) \<or> \<not> ishex (cs ! 1) then
           Inl (EscapeError (take 3 (c # cs)))
         else if mode = encodeHost \<and> unhex (cs ! 0) < 8 \<and> take 3 (c # cs) \<noteq> ''%25'' then
           Inl (EscapeError (take 3 (c # cs)))
         else if mode = encodeZone \<and> take 3 (c # cs) \<noteq> ''%25''
                 \<and> char_of (16 * unhex (cs ! 0) + unhex (cs ! 1)) \<noteq> CHR '' ''
                 \<and> shouldEscape (char_of (16 * unhex (cs ! 0) + unhex (cs ! 1))) encodeHost then
           Inl (EscapeError (take 3 (c # cs)))
         else
           (case unescape (drop 2 cs) mode of
              Inl err \<Rightarrow> Inl err
            | Inr t \<Rightarrow> Inr (char_of (16 * unhex (cs ! 0) + unhex (cs ! 1)) # t)))
      else if c = CHR ''+'' then
        (case unescape cs mode of
           Inl err \<Rightarrow> Inl err
         | Inr t \<Rightarrow> Inr ((if mode = encodeQueryComponent then CHR '' '' else CHR ''+'') # t))
      else if (mode = encodeHost \<or> mode = encodeZone) \<and> byte c < 0x80 \<and> shouldEscape c encodeHost then
        Inl (InvalidHostError [c])
      else
        (case unescape cs mode of
           Inl err \<Rightarrow> Inl err
         | Inr t \<Rightarrow> Inr (c # t)))"
  by pat_completeness auto
termination
  by (relation "measure (\<lambda>(s, mode). length s)") auto

text \<open>
  \<^verbatim>\<open>getScheme\<close>: the loop over \<^verbatim>\<open>rawURL\<close>, at index \<open>i\<close> with the bytes from
  there on still to read.
\<close>

fun scan_scheme :: "nat \<Rightarrow> string \<Rightarrow> string \<Rightarrow> url_error + string \<times> string" where
  "scan_scheme i rawURL [] = Inr ([], rawURL)"
| "scan_scheme i rawURL (c # cs) =
     (if is_lower c \<or> is_upper c then scan_scheme (Suc i) rawURL cs
      else if is_digit c \<or> c = CHR ''+'' \<or> c = CHR ''-'' \<or> c = CHR ''.'' then
        (if i = 0 then Inr ([], rawURL) else scan_scheme (Suc i) rawURL cs)
      else if c = CHR '':'' then
        (if i = 0 then Inl MissingProtocolScheme else Inr (take i rawURL, drop (i + 1) rawURL))
      else Inr ([], rawURL))"

definition getScheme :: "string \<Rightarrow> url_error + string \<times> string" where
  "getScheme rawURL = scan_scheme 0 rawURL rawURL"

definition validOptionalPort :: "string \<Rightarrow> bool" where
  "validOptionalPort port =
     (case port of
        [] \<Rightarrow> True
      | c # ds \<Rightarrow> c = CHR '':'' \<and> list_all is_digit ds)"

definition parseHost :: "string \<Rightarrow> url_error + string" where
  "parseHost host =
     (if HasPrefix host ''['' then
        (case LastIndexByte host (CHR '']'') of
           None \<Rightarrow> Inl MissingBracket
         | Some i \<Rightarrow>
             if \<not> validOptionalPort (drop (i + 1) host) then Inl (InvalidPort (drop (i + 1) host))
             else
               (case Index (take i host) ''%25'' of
                  Some zone \<Rightarrow>
                    (case unescape (take zone host) encodeHost of
                       Inl err \<Rightarrow> Inl err
                     | Inr host1 \<Rightarrow>
                         (case unescape (drop zone (take i host)) encodeZone of
                            Inl err \<Rightarrow> Inl err
                          | Inr host2 \<Rightarrow>
                              (case unescape (drop i host) encodeHost of
                                 Inl err \<Rightarrow> Inl err
                               | Inr host3 \<Rightarrow> Inr (host1 @ host2 @ host3))))
                | None \<Rightarrow> unescape host encodeHost))
      else
        (case LastIndexByte host (CHR '':'') of
           Some i \<Rightarrow>
             if \<not> validOptionalPort (drop i host) then Inl (InvalidPort (drop i host))
             else unescape host encodeHost
         | None \<Rightarrow> unescape host encodeHost))"

definition validUserinfo :: "string \<Rightarrow> bool" where
  "validUserinfo s =
     list_all (\<lambda>r. is_upper r \<or> is_lower r \<or> is_digit r
                  \<or> r \<in> set (''-._:~!$&()*+,;=%@'' @ [CHR 0x27])) s"

definition parseAuthority :: "string \<Rightarrow> url_error + (string \<times> string option) option \<times> string" where
  "parseAuthority authority =
     (case LastIndexByte authority (CHR ''@'') of
        None \<Rightarrow>
          (case parseHost authority of
             Inl err \<Rightarrow> Inl err
           | Inr host \<Rightarrow> Inr (None, host))
      | Some i \<Rightarrow>
          (case parseHost (drop (i + 1) authority) of
             Inl err \<Rightarrow> Inl err
           | Inr host \<Rightarrow>
               let userinfo = take i authority
               in if \<not> validUserinfo userinfo then Inl InvalidUserinfo
                  else if CHR '':'' \<notin> set userinfo then
                    (case unescape userinfo encodeUserPassword of
                       Inl err \<Rightarrow> Inl err
                     | Inr name \<Rightarrow> Inr (Some (name, None), host))
                  else
                    (case unescape (fst (Cut userinfo '':'')) encodeUserPassword of
                       Inl err \<Rightarrow> Inl err
                     | Inr name \<Rightarrow>
                         (case unescape (snd (Cut userinfo '':'')) encodeUserPassword of
                            Inl err \<Rightarrow> Inl err
                          | Inr password \<Rightarrow> Inr (Some (name, Some password), host)))))"

definition setPath :: "string \<Rightarrow> url \<Rightarrow> url_error + url" where
  "setPath p u =
     (case unescape p encodePath of
        Inl err \<Rightarrow> Inl err
      | Inr path \<Rightarrow> Inr (u\<lparr>Path := path\<rparr>))"

definition stringContainsCTLByte :: "string \<Rightarrow> bool" where
  "stringContainsCTLByte s = list_ex (\<lambda>b. byte b < byte (CHR '' '') \<or> byte b = 0x7f) s"

text \<open>\<^verbatim>\<open>parse(rawURL, viaRequest)\<close> with \<^verbatim>\<open>viaRequest = false\<close>, as \<^verbatim>\<open>Parse\<close> calls it.\<close>

definition parse :: "string \<Rightarrow> url_error + url" where
  "parse rawURL =
     (if stringContainsCTLByte rawURL then Inl InvalidControlCharacter
      else if rawURL = ''*'' then Inr (empty_url\<lparr>Path := ''*''\<rparr>)
      else
        (case getScheme rawURL of
           Inl err \<Rightarrow> Inl err
         | Inr (scheme0, rest0) \<Rightarrow>
             let scheme = ToLower scheme0;
                 force = (HasSuffix rest0 ''?'' \<and> length (filter (\<lambda>c. c = CHR ''?'') rest0) = 1);
                 rest = (if force then take (length rest0 - 1) rest0 else fst (Cut rest0 ''?''));
                 query = (if force then [] else snd (Cut rest0 ''?''));
                 u = empty_url\<lparr>Scheme := scheme, ForceQuery := force, RawQuery := query\<rparr>
             in if \<not> HasPrefix rest ''/'' \<and> scheme \<noteq> [] then Inr (u\<lparr>Opaque := rest\<rparr>)
                else if \<not> HasPrefix rest ''/'' \<and> CHR '':'' \<in> set (fst (Cut rest ''/'')) then
                  Inl FirstSegmentColon
                else if (scheme \<noteq> [] \<or> \<not> HasPrefix rest ''///'') \<and> HasPrefix rest ''//'' then
                  let authority0 = drop 2 rest;
                      authority = (case Index authority0 ''/'' of
                                     Some i \<Rightarrow> take i authority0 | None \<Rightarrow> authority0);
                      rest' = (case Index authority0 ''/'' of
                                 Some i \<Rightarrow> drop i authority0 | None \<Rightarrow> [])
                  in (case parseAuthority authority of
                        Inl err \<Rightarrow> Inl err
                      | Inr (user, host) \<Rightarrow> setPath rest' (u\<lparr>User := user, Host := host\<rparr>))
                else setPath rest (u\<lparr>OmitHost := (scheme \<noteq> [] \<and> HasPrefix rest ''/'')\<rparr>)))"

text \<open>\<^verbatim>\<open>url.Parse\<close>: the fragment is cut off first and attached last.\<close>

definition url_Parse :: "string \<Rightarrow> url_error + url" where
  "url_Parse rawURL =
     (case parse (fst (Cut rawURL ''#'')) of
        Inl err \<Rightarrow> Inl err
      | Inr u \<Rightarrow>
          if snd (Cut rawURL ''#'') = [] then Inr u
          else
            (case unescape (snd (Cut rawURL ''#'')) encodeFragment of
               Inl err \<Rightarrow> Inl err
             | Inr frag \<Rightarrow> Inr (u\<lparr>Fragment := frag\<rparr>)))"

text \<open>\<^verbatim>\<open>URL.Hostname\<close>: the host without a valid port and without IPv6 brackets.\<close>

definition Hostname :: "url \<Rightarrow> string" where
  "Hostname u =
     (let host = (case LastIndexByte (Host u) (CHR '':'') of
                    Some colon \<Rightarrow>
                      if validOptionalPort (drop colon (Host u)) then take colon (Host u) else Host u
                  | None \<Rightarrow> Host u)
      in if HasPrefix host ''['' \<and> HasSuffix host '']'' then take (length host - 2) (drop 1 host)
         else host)"

section \<open>The Process Runner and its environment\<close>

text \<open>
  An external command as \<^verbatim>\<open>exec.Command\<close> builds it: working directory (empty
  for the caller's own), program, arguments, and how its streams are wired.
  \<^verbatim>\<open>executeCommand\<close> inherits the terminal, \<^verbatim>\<open>executeCommandWithOutput\<close>
  captures standard output, the sftp fallback feeds standard input from a string.
\<close>

datatype wiring = Interactive | Capturing | PipedInput string

text \<open>
  All arguments are plain strings but one: the clone workflow passes the text of
  \<^verbatim>\<open>parsedURL.String()\<close>, which is carried unexpanded as \<open>URLString u\<close>.
\<close>

datatype arg = Lit string | URLString url

record cmd =
  cdir :: string
  cprog :: string
  cargs :: "arg list"
  cwiring :: wiring

text \<open>One constructor for each line the workflows print to standard output.\<close>

datatype message =
    Executing cmd
  | ExecutingPiped string cmd
  | AppendingExtension string
  | DefaultingToUser string
  | Initializing string string
  | InitSuccess string
  | AttemptingTransfer string string
  | ScpFailed
  | FallingBack
  | TransferSuccess
  | Separator
  | PostTransferNotice
  | PermissionsNotice
  | LoginNotice
  | ReplaceNotice string
  | Blank
  | RemediationCommand string
  | CloningFrom string
  | TargetDirectory string
  | CloneSuccess string

text \<open>
  What a run does to the outside world, in order: a line printed, an external
  program started through \<^verbatim>\<open>os/exec\<close>, a directory created with \<^verbatim>\<open>os.MkdirAll\<close>.
\<close>

datatype event = Print message | Run cmd | MkdirAll string

text \<open>The reasons for \<^verbatim>\<open>log.Fatal\<close>, one for each call in the source.\<close>

datatype fatal =
    PasswordRequired
  | WhoamiFailed
  | NewRepositoryFailed
  | CheckoutDirFailed
  | OpenFailed
  | SetPasswordFailed
  | SetDefaultUserFailed
  | DestinationRequired
  | InvalidDestinationFormat
  | SftpFailed
  | InvalidURL
  | NoCurrentUser
  | TargetDirFailed
  | CloneFailed

text \<open>
  A run ends normally, in \<^verbatim>\<open>log.Fatal\<close> (message on standard error, exit status 1),
  or in a Go run-time panic (index out of range).
\<close>

datatype outcome = Done | Fatal fatal | Panic

record run =
  trace :: "event list"
  outcome :: outcome

text \<open>
  The environment answers what the program cannot decide: whether a command
  exits successfully, what a captured command prints (after
  \<^verbatim>\<open>strings.TrimSpace\<close>; \<open>None\<close> when it fails), whether a directory can be
  created, who the current user is (\<^verbatim>\<open>HomeDir\<close>, \<^verbatim>\<open>Username\<close>), and the working
  directory.
\<close>

record env =
  run_ok :: "cmd \<Rightarrow> bool"
  captured :: "cmd \<Rightarrow> string option"
  mkdir_ok :: "string \<Rightarrow> bool"
  user_Current :: "(string \<times> string) option"
  Getwd :: string

definition halt :: "event list \<Rightarrow> outcome \<Rightarrow> run" where
  "halt t r = \<lparr>trace = t, outcome = r\<rparr>"

definition command :: "string \<Rightarrow> string \<Rightarrow> string list \<Rightarrow> cmd" where
  "command workingDir commandName args =
     \<lparr>cdir = workingDir, cprog = commandName, cargs = map Lit args, cwiring = Interactive\<rparr>"

text \<open>
  \<^verbatim>\<open>executeCommand\<close>: announce the command, run it on the terminal, report
  whether it succeeded. The trace so far is passed in and returned extended.
\<close>

definition executeCommand :: "env \<Rightarrow> cmd \<Rightarrow> event list \<Rightarrow> bool \<times> event list" where
  "executeCommand e c t = (run_ok e c, t @ [Print (Executing c), Run c])"

definition executeCommandWithOutput :: "env \<Rightarrow> cmd \<Rightarrow> event list \<Rightarrow> string option \<times> event list" where
  "executeCommandWithOutput e c t = (captured e c, t @ [Print (Executing c), Run c])"

text \<open>The external programs a run has started.\<close>

fun invocations :: "event list \<Rightarrow> cmd list" where
  "invocations [] = []"
| "invocations (Run c # t) = c # invocations t"
| "invocations (_ # t) = invocations t"

definition attempts :: "string \<Rightarrow> run \<Rightarrow> nat" where
  "attempts prog r = length (filter (\<lambda>c. cprog c = prog) (invocations (trace r)))"

text \<open>The directories a run has asked \<^verbatim>\<open>os.MkdirAll\<close> for.\<close>

fun directories :: "event list \<Rightarrow> string list" where
  "directories [] = []"
| "directories (MkdirAll d # t) = d # directories t"
| "directories (_ # t) = directories t"

section \<open>The Init Workflow\<close>

text \<open>The name normalisation of \<^verbatim>\<open>initCmd\<close>: \<^verbatim>\<open>.fossil\<close> is appended if absent.\<close>

definition init_repoName :: "string \<Rightarrow> string" where
  "init_repoName repoArg =
     (if \<not> HasSuffix repoArg ''.fossil'' then repoArg @ ''.fossil'' else repoArg)"

text \<open>The steps of \<^verbatim>\<open>initCmd\<close> once the user name is known.\<close>

definition init_create :: "env \<Rightarrow> string \<Rightarrow> string \<Rightarrow> string \<Rightarrow> event list \<Rightarrow> run" where
  "init_create e repoName username password t0 =
     (let t1 = t0 @ [Print (Initializing repoName username)];
          (ok2, t2) = executeCommand e (command [] ''fossil'' [''new'', repoName]) t1
      in if \<not> ok2 then halt t2 (Fatal NewRepositoryFailed)
      else
        let checkoutDirName = TrimSuffix repoName ''.fossil'';
            t3 = t2 @ [MkdirAll checkoutDirName]
        in if \<not> mkdir_ok e checkoutDirName then halt t3 (Fatal CheckoutDirFailed)
        else
          let repoFilePath = Join [''..'', repoName];
              (ok4, t4) = executeCommand e (command checkoutDirName ''fossil'' [''open'', repoFilePath]) t3
          in if \<not> ok4 then halt t4 (Fatal OpenFailed)
          else
            let (ok5, t5) = executeCommand e
                  (command checkoutDirName ''fossil'' [''user'', ''password'', username, password]) t4
            in if \<not> ok5 then halt t5 (Fatal SetPasswordFailed)
            else
              let (ok6, t6) = executeCommand e
                    (command checkoutDirName ''fossil'' [''user'', ''default'', username]) t5
              in if \<not> ok6 then halt t6 (Fatal SetDefaultUserFailed)
              else halt (t6 @ [Print (InitSuccess (Join [Getwd e, checkoutDirName]))]) Done)"

text \<open>
  \<^verbatim>\<open>initCmd\<close>, given the positional argument and the values of the flags
  \<^verbatim>\<open>--password\<close> and \<^verbatim>\<open>--user\<close> (both empty when absent).
\<close>

definition initCmd :: "env \<Rightarrow> string \<Rightarrow> string \<Rightarrow> string \<Rightarrow> run" where
  "initCmd e repoArg password username =
     (if password = [] then halt [] (Fatal PasswordRequired)
      else
        let repoName = init_repoName repoArg;
            t0 = (if \<not> HasSuffix repoArg ''.fossil'' then [Print (AppendingExtension repoName)] else [])
        in if username = [] then
             (case executeCommandWithOutput e
                     \<lparr>cdir = [], cprog = ''whoami'', cargs = [], cwiring = Capturing\<rparr> t0 of
                (None, t1) \<Rightarrow> halt t1 (Fatal WhoamiFailed)
              | (Some name, t1) \<Rightarrow>
                  init_create e repoName name password (t1 @ [Print (DefaultingToUser name)]))
           else init_create e repoName username password t0)"

section \<open>The Transfer Workflow\<close>

definition dquote :: string where
  "dquote = [CHR 0x22]"

text \<open>
  The success block of \<^verbatim>\<open>transferCmd\<close> (from \<^verbatim>\<open>Success! Repository transferred.\<close>
  on). It splits the destination again and reads \<^verbatim>\<open>parts[1]\<close> unchecked: with
  fewer than two parts the program panics there.
\<close>

definition transfer_report :: "string \<Rightarrow> string \<Rightarrow> string \<Rightarrow> event list \<Rightarrow> run" where
  "transfer_report repoName destination remoteUser t0 =
     (let t1 = t0 @ [Print TransferSuccess, Print Separator, Print PostTransferNotice,
                     Print PermissionsNotice, Print LoginNotice, Print (ReplaceNotice remoteUser),
                     Print Blank];
          parts = SplitN destination '':'' 2
      in if length parts < 2 then halt t1 Panic
      else
        let userHost = parts ! 0;
            remotePath = Join [parts ! 1, repoName]
        in halt (t1 @ [Print (RemediationCommand
                   (''ssh -t '' @ userHost @ '' '' @ dquote @ ''sudo chown '' @ remoteUser @ '':''
                      @ remoteUser @ '' '' @ remotePath @ '' && sudo chmod 664 '' @ remotePath
                      @ dquote)),
                 Print Separator]) Done)"

text \<open>
  \<^verbatim>\<open>transferCmd\<close>, given the positional argument and the values of the flags
  \<^verbatim>\<open>--destination\<close> (empty when absent) and \<^verbatim>\<open>--remote-user\<close>
  (\<^verbatim>\<open>www-data\<close> when absent).
\<close>

definition transferCmd :: "env \<Rightarrow> string \<Rightarrow> string \<Rightarrow> string \<Rightarrow> run" where
  "transferCmd e repoName destination remoteUser =
     (if destination = [] then halt [] (Fatal DestinationRequired)
      else
        let t0 = [Print (AttemptingTransfer repoName destination)];
            (ok1, t1) = executeCommand e (command [] ''scp'' [repoName, destination]) t0
        in if \<not> ok1 then
             let t2 = t1 @ [Print ScpFailed, Print FallingBack];
                 parts = SplitN destination '':'' 2
             in if length parts \<noteq> 2 then halt t2 (Fatal InvalidDestinationFormat)
             else
               let userHost = parts ! 0;
                   remotePath = parts ! 1;
                   sftpCommand = ''put '' @ repoName @ '' '' @ remotePath;
                   sftpCmd = \<lparr>cdir = [], cprog = ''sftp'', cargs = [Lit userHost],
                              cwiring = PipedInput sftpCommand\<rparr>;
                   t3 = t2 @ [Print (ExecutingPiped sftpCommand sftpCmd), Run sftpCmd]
               in if \<not> run_ok e sftpCmd then halt t3 (Fatal SftpFailed)
               else transfer_report repoName destination remoteUser t3
           else transfer_report repoName destination remoteUser t1)"


section \<open>The Clone Workflow\<close>

text \<open>\<^verbatim>\<open>cloneCmd\<close> from the cleaned URL on.\<close>

definition clone_from :: "env \<Rightarrow> string \<Rightarrow> run" where
  "clone_from e cleanURL =
     (let t0 = [Print (CloningFrom cleanURL)]
      in case url_Parse cleanURL of
           Inl err \<Rightarrow> halt t0 (Fatal InvalidURL)
         | Inr parsedURL \<Rightarrow>
             (case user_Current e of
                None \<Rightarrow> halt t0 (Fatal NoCurrentUser)
              | Some (homeDir, username) \<Rightarrow>
                  let hostname = Hostname parsedURL;
                      urlPath = TrimPrefix (Path parsedURL) ''/'';
                      targetDir = Join [homeDir, ''fossils'', hostname, Dir urlPath];
                      t1 = t0 @ [Print (TargetDirectory targetDir), MkdirAll targetDir]
                  in if \<not> mkdir_ok e targetDir then halt t1 (Fatal TargetDirFailed)
                  else
                    let authURL = URLString (parsedURL\<lparr>User := Some (username, None)\<rparr>);
                        repoBaseName = TrimSuffix (Base urlPath) ''.fossil'';
                        fossilFileName = repoBaseName @ ''.fossil'';
                        (ok2, t2) = executeCommand e
                          \<lparr>cdir = targetDir, cprog = ''fossil'',
                           cargs = [Lit ''clone'', authURL, Lit fossilFileName],
                           cwiring = Interactive\<rparr> t1
                    in if \<not> ok2 then halt t2 (Fatal CloneFailed)
                    else
                      let checkoutDir = Join [targetDir, repoBaseName];
                          t3 = t2 @ [MkdirAll checkoutDir]
                      in if \<not> mkdir_ok e checkoutDir then halt t3 (Fatal CheckoutDirFailed)
                      else
                        let repoFilePath = Join [''..'', fossilFileName];
                            (ok4, t4) = executeCommand e
                              (command checkoutDir ''fossil'' [''open'', repoFilePath]) t3
                        in if \<not> ok4 then halt t4 (Fatal OpenFailed)
                        else halt (t4 @ [Print (CloneSuccess checkoutDir)]) Done))"

text \<open>\<^verbatim>\<open>cloneCmd\<close>: a trailing \<^verbatim>\<open>/home\<close> is trimmed off the argument first.\<close>

definition cloneCmd :: "env \<Rightarrow> string \<Rightarrow> run" where
  "cloneCmd e fossilURL = clone_from e (TrimSuffix fossilURL ''/home'')"

section \<open>Two test environments\<close>

text \<open>
  A runner for which every command and every system call succeeds, for a user
  \<^verbatim>\<open>bob\<close>, and one for which everything fails.
\<close>

definition all_succeed :: env where
  "all_succeed = \<lparr>run_ok = (\<lambda>c. True), captured = (\<lambda>c. Some ''bob''), mkdir_ok = (\<lambda>d. True),
     user_Current = Some (''/home/bob'', ''bob''), Getwd = ''/work''\<rparr>"

definition all_fail :: env where
  "all_fail = \<lparr>run_ok = (\<lambda>c. False), captured = (\<lambda>c. None), mkdir_ok = (\<lambda>d. False),
     user_Current = None, Getwd = []\<rparr>"

section \<open>Command-line flags\<close>

text \<open>
  \<^verbatim>\<open>main\<close> registers the flags with their defaults: the empty string for
  \<^verbatim>\<open>--password\<close>, \<^verbatim>\<open>--user\<close> and \<^verbatim>\<open>--destination\<close>, \<^verbatim>\<open>www-data\<close> for
  \<^verbatim>\<open>--remote-user\<close>. \<^verbatim>\<open>GetString\<close> yields the default for a flag that is not given.
\<close>

definition GetString :: "string \<Rightarrow> string option \<Rightarrow> string" where
  "GetString dflt given = (case given of None \<Rightarrow> dflt | Some v \<Rightarrow> v)"

definition teryx_init :: "env \<Rightarrow> string \<Rightarrow> string option \<Rightarrow> string option \<Rightarrow> run" where
  "teryx_init e repoArg password_flag user_flag =
     initCmd e repoArg (GetString [] password_flag) (GetString [] user_flag)"

definition teryx_transfer :: "env \<Rightarrow> string \<Rightarrow> string option \<Rightarrow> string option \<Rightarrow> run" where
  "teryx_transfer e repoName destination_flag remote_user_flag =
     transferCmd e repoName (GetString [] destination_flag) (GetString ''www-data'' remote_user_flag)"

section \<open>Notions for the analysis of \<^verbatim>\<open>Clean\<close>\<close>

text \<open>
  A normal path element: non-empty, without separator, and neither \<^verbatim>\<open>.\<close> nor
  \<^verbatim>\<open>..\<close>. A plain file name is one.
\<close>

definition normal_element :: "string \<Rightarrow> bool" where
  "normal_element e = (e \<noteq> [] \<and> CHR ''/'' \<notin> set e \<and> e \<noteq> ''.'' \<and> e \<noteq> ''..'')"

text \<open>
  The invariant of the loop of \<^verbatim>\<open>Clean\<close>: a rooted buffer is \<^verbatim>\<open>/\<close> followed by
  normal elements, an unrooted one a run of \<^verbatim>\<open>..\<close> elements followed by normal
  elements, with \<open>dotdot\<close> the length of that run.
\<close>

definition clean_state :: "bool \<Rightarrow> string \<Rightarrow> nat \<Rightarrow> bool" where
  "clean_state rooted out dotdot =
     (\<exists>k es. list_all normal_element es \<and>
        (if rooted then out = CHR ''/'' # strings_Join es ''/'' \<and> dotdot = 1
         else out = strings_Join (replicate k ''..'' @ es) ''/''
              \<and> dotdot = length (strings_Join (replicate k ''..'') ''/'')))"

text \<open>The loop of \<^verbatim>\<open>Clean\<close> run on a non-empty path from its initial state.\<close>

definition clean_run :: "string \<Rightarrow> string \<times> nat" where
  "clean_run p =
     (if IsPathSeparator (hd p) then clean_loop True ''/'' 1 (tl p) else clean_loop False [] 0 p)"

section \<open>Facts about the string functions\<close>

lemma HasSuffix_iff: "HasSuffix s suf \<longleftrightarrow> (\<exists>p. s = p @ suf)"
proof
  assume "HasSuffix s suf"
  then have "s = take (length s - length suf) s @ suf"
    by (metis HasSuffix_def append_take_drop_id)
  then show "\<exists>p. s = p @ suf" ..
next
  assume "\<exists>p. s = p @ suf"
  then show "HasSuffix s suf" by (auto simp: HasSuffix_def)
qed

lemma HasSuffix_append [simp]: "HasSuffix (p @ suf) suf"
  by (simp add: HasSuffix_def)

lemma TrimSuffix_append [simp]: "TrimSuffix (p @ suf) suf = p"
  by (simp add: TrimSuffix_def)

lemma Index_colon_None: "CHR '':'' \<notin> set s \<Longrightarrow> Index s '':'' = None"
  by (induction s) (auto simp: HasPrefix_def)

lemma Index_colon_Some:
  "CHR '':'' \<in> set s \<Longrightarrow> Index s '':'' = Some (length (takeWhile (\<lambda>c. c \<noteq> CHR '':'') s))"
  by (induction s) (auto simp: HasPrefix_def)

lemma SplitN_no_colon: "CHR '':'' \<notin> set s \<Longrightarrow> SplitN s '':'' 2 = [s]"
proof -
  assume a: "CHR '':'' \<notin> set s"
  have "min 2 (length s + 1) - 1 = (if s = [] then 0 else Suc 0)" by (cases s) auto
  then show ?thesis
    by (simp add: SplitN_def Index_colon_None [OF a])
qed

lemma SplitN_colon:
  "CHR '':'' \<in> set s \<Longrightarrow>
     SplitN s '':'' 2 = [takeWhile (\<lambda>c. c \<noteq> CHR '':'') s, tl (dropWhile (\<lambda>c. c \<noteq> CHR '':'') s)]"
proof -
  assume a: "CHR '':'' \<in> set s"
  then have "s \<noteq> []" by auto
  then have "min 2 (length s + 1) - 1 = Suc 0" by (cases s) auto
  moreover have "drop (length (takeWhile (\<lambda>c. c \<noteq> CHR '':'') s) + 1) s
      = tl (dropWhile (\<lambda>c. c \<noteq> CHR '':'') s)"
    by (metis One_nat_def add.commute drop_Suc dropWhile_eq_drop plus_1_eq_Suc tl_drop)
  ultimately show ?thesis
    using a by (simp add: SplitN_def Index_colon_Some takeWhile_eq_take[symmetric])
qed

lemma length_SplitN_colon: "length (SplitN s '':'' 2) = (if CHR '':'' \<in> set s then 2 else 1)"
  by (simp add: SplitN_no_colon SplitN_colon)

section \<open>Facts about \<^verbatim>\<open>Clean\<close>\<close>

lemma clean_step_cont:
  "clean_step r out dd c (cs @ CHR ''/'' # Y) =
     (fst (clean_step r out dd c cs), fst (snd (clean_step r out dd c cs)),
      snd (snd (clean_step r out dd c cs)) @ CHR ''/'' # Y)"
proof (cases cs)
  case Nil
  then show ?thesis by (simp add: clean_step_def IsPathSeparator_def)
next
  case (Cons d ds)
  show ?thesis
  proof (cases ds)
    case Nil
    with Cons show ?thesis by (simp add: clean_step_def IsPathSeparator_def)
  next
    case (Cons d' ds')
    with \<open>cs = d # ds\<close> show ?thesis
      by (simp add: clean_step_def IsPathSeparator_def takeWhile_tail dropWhile_append3)
  qed
qed

lemma clean_loop_cont:
  "clean_loop r out dd (X @ CHR ''/'' # Y) =
     clean_loop r (fst (clean_loop r out dd X)) (snd (clean_loop r out dd X)) (CHR ''/'' # Y)"
proof (induction r out dd X rule: clean_loop.induct)
  case (1 rooted out dotdot)
  show ?case by simp
next
  case (2 rooted out dotdot c cs)
  show ?case
    using 2 by (simp add: clean_step_cont)
qed

lemma clean_loop_slash: "clean_loop r out dd (CHR ''/'' # X) = clean_loop r out dd X"
  by (simp add: clean_step_def IsPathSeparator_def)

lemma clean_loop_dot_suffix:
  "clean_loop r out dd (X @ ''/.'') = clean_loop r out dd X"
  by (simp add: clean_loop_cont clean_step_def IsPathSeparator_def)

lemma Clean_dot_suffix: "p \<noteq> [] \<Longrightarrow> Clean (p @ ''/.'') = Clean p"
  by (simp add: Clean_def clean_loop_dot_suffix Let_def)

lemma clean_loop_element:
  assumes "normal_element e"
  shows "clean_loop r out dd e =
    ((if r \<and> length out \<noteq> 1 \<or> \<not> r \<and> length out \<noteq> 0 then out @ ''/'' else out) @ e, dd)"
proof -
  from assms obtain c cs where e: "e = c # cs" by (cases e) (auto simp: normal_element_def)
  from assms have nosep: "\<forall>x\<in>set e. \<not> IsPathSeparator x"
    by (auto simp: normal_element_def IsPathSeparator_def)
  then have tw: "element_of e = e" and dw: "after_element e = []"
    by (simp_all add: takeWhile_eq_all_conv)
  have c: "\<not> IsPathSeparator c" using nosep e by simp
  have c2: "\<not> (c = CHR ''.'' \<and> (cs = [] \<or> IsPathSeparator (hd cs)))"
    using assms nosep e by (cases cs) (auto simp: normal_element_def)
  have c3: "\<not> (c = CHR ''.'' \<and> hd cs = CHR ''.'' \<and> (tl cs = [] \<or> IsPathSeparator (hd (tl cs))))"
  proof (cases cs)
    case Nil
    then show ?thesis using c2 by simp
  next
    case (Cons d ds)
    then show ?thesis using assms nosep e by (cases ds) (auto simp: normal_element_def)
  qed
  have "clean_step r out dd c cs =
     ((if r \<and> length out \<noteq> 1 \<or> \<not> r \<and> length out \<noteq> 0 then out @ ''/'' else out) @ e, dd, [])"
    unfolding clean_step_def using c c2 c3 tw dw e by (simp only: if_False)
  then show ?thesis by (simp add: e)
qed

lemma clean_loop_dotdot:
  "clean_loop r out dd ''..'' =
     (if length out > dd then (take (backtrack out dd (length out - 1)) out, dd)
      else if \<not> r then ((if length out > 0 then out @ ''/'' else out) @ ''..'',
                         length ((if length out > 0 then out @ ''/'' else out) @ ''..''))
      else (out, dd))"
  by (simp add: clean_step_def IsPathSeparator_def)

lemma backtrack_to_separator:
  assumes "CHR ''/'' \<notin> set e" and "dd \<le> length Q" and "i \<le> length e"
  shows "backtrack (Q @ CHR ''/'' # e) dd (length Q + i) = length Q"
  using assms(3)
proof (induction i)
  case 0
  show ?case by (subst backtrack.simps) (simp add: IsPathSeparator_def)
next
  case (Suc j)
  then have "e ! j \<in> set e" by simp
  with assms(1) have "e ! j \<noteq> CHR ''/''" by metis
  then have "\<not> IsPathSeparator ((Q @ CHR ''/'' # e) ! (length Q + Suc j))"
    by (simp add: nth_append IsPathSeparator_def)
  moreover have "length Q + Suc j > dd" using assms(2) by simp
  ultimately have "backtrack (Q @ CHR ''/'' # e) dd (length Q + Suc j)
      = backtrack (Q @ CHR ''/'' # e) dd (length Q + j)"
    by (subst backtrack.simps) simp
  with Suc show ?case by simp
qed

lemma backtrack_to_dotdot:
  assumes "CHR ''/'' \<notin> set e" and "i < length e"
  shows "backtrack (Q @ e) (length Q) (length Q + i) = length Q"
  using assms(2)
proof (induction i)
  case 0
  show ?case by (subst backtrack.simps) simp
next
  case (Suc j)
  then have "e ! Suc j \<in> set e" by simp
  with assms(1) have "e ! Suc j \<noteq> CHR ''/''" by metis
  then have "\<not> IsPathSeparator ((Q @ e) ! (length Q + Suc j))"
    by (simp add: nth_append IsPathSeparator_def)
  then have "backtrack (Q @ e) (length Q) (length Q + Suc j)
      = backtrack (Q @ e) (length Q) (length Q + j)"
    by (subst backtrack.simps) simp
  with Suc show ?case by simp
qed

lemma strings_Join_snoc:
  "es \<noteq> [] \<Longrightarrow> strings_Join (es @ [e]) sep = strings_Join es sep @ sep @ e"
  by (induction es sep rule: strings_Join.induct) auto

lemma strings_Join_Nil_iff:
  "list_all (\<lambda>e. e \<noteq> []) es \<Longrightarrow> strings_Join es sep = [] \<longleftrightarrow> es = []"
  by (induction es sep rule: strings_Join.induct) auto

lemma length_strings_Join_prefix:
  "length (strings_Join xs sep) \<le> length (strings_Join (xs @ ys) sep)"
proof (induction ys rule: rev_induct)
  case Nil
  show ?case by simp
next
  case (snoc y ys)
  show ?case
  proof (cases "xs @ ys = []")
    case True
    then show ?thesis by simp
  next
    case False
    then have "strings_Join (xs @ ys @ [y]) sep = strings_Join (xs @ ys) sep @ sep @ y"
      using strings_Join_snoc [of "xs @ ys" y sep] by simp
    with snoc show ?thesis by simp
  qed
qed

lemma length_strings_Join_longer:
  assumes "es \<noteq> []" and "list_all (\<lambda>e. e \<noteq> []) es"
  shows "length (strings_Join xs sep) < length (strings_Join (xs @ es) sep)"
proof -
  from assms(1) obtain es' e where es: "es = es' @ [e]" by (cases es rule: rev_cases) auto
  with assms(2) have e: "e \<noteq> []" by simp
  show ?thesis
  proof (cases "xs @ es' = []")
    case True
    then show ?thesis using e es by simp
  next
    case False
    then have "strings_Join (xs @ es) sep = strings_Join (xs @ es') sep @ sep @ e"
      using strings_Join_snoc [of "xs @ es'" e sep] es by simp
    moreover have "length (strings_Join xs sep) \<le> length (strings_Join (xs @ es') sep)"
      by (rule length_strings_Join_prefix)
    ultimately show ?thesis using e by (cases e) simp_all
  qed
qed

lemma normal_nonempty: "list_all normal_element es \<Longrightarrow> list_all (\<lambda>e. e \<noteq> []) es"
  by (induction es) (auto simp: normal_element_def)

lemma dots_nonempty: "list_all (\<lambda>e. e \<noteq> []) (replicate k ''..'')"
  by (induction k) auto

lemma clean_state_rooted:
  "list_all normal_element es \<Longrightarrow> clean_state True (CHR ''/'' # strings_Join es ''/'') 1"
  unfolding clean_state_def by auto

lemma clean_state_unrooted:
  "list_all normal_element es \<Longrightarrow>
     clean_state False (strings_Join (replicate k ''..'' @ es) ''/'')
       (length (strings_Join (replicate k ''..'') ''/''))"
  unfolding clean_state_def by auto

lemma state_backtrack:
  assumes "clean_state r out dd" and "length out > dd"
  shows "clean_state r (take (backtrack out dd (length out - 1)) out) dd"
proof -
  from assms(1) obtain k es where es: "list_all normal_element es"
    and shape: "if r then out = CHR ''/'' # strings_Join es ''/'' \<and> dd = 1
         else out = strings_Join (replicate k ''..'' @ es) ''/''
              \<and> dd = length (strings_Join (replicate k ''..'') ''/'')"
    unfolding clean_state_def by blast
  have "es \<noteq> []"
  proof
    assume "es = []"
    with shape assms(2) show False by (cases r) auto
  qed
  then obtain es' e where split: "es = es' @ [e]" by (cases es rule: rev_cases) auto
  with es have es': "list_all normal_element es'" and e: "normal_element e" by simp_all
  from e have e1: "CHR ''/'' \<notin> set e" and e2: "e \<noteq> []" by (simp_all add: normal_element_def)
  show ?thesis
  proof (cases r)
    case True
    with shape have out: "out = CHR ''/'' # strings_Join es ''/''" and dd: "dd = 1" by simp_all
    show ?thesis
    proof (cases "es' = []")
      case True
      with out split have o: "out = [CHR ''/''] @ e" by simp
      have "backtrack ([CHR ''/''] @ e) (length [CHR ''/'']) (length [CHR ''/''] + (length e - 1))
          = length [CHR ''/'']"
        using e1 e2 by (intro backtrack_to_dotdot) simp_all
      then have "backtrack out dd (length out - 1) = 1" using o dd e2 by simp
      then have "take (backtrack out dd (length out - 1)) out = CHR ''/'' # strings_Join [] ''/''"
        using o by simp
      then show ?thesis using \<open>r\<close> dd clean_state_rooted [of "[]"] by simp
    next
      case False
      with out split have o: "out = (CHR ''/'' # strings_Join es' ''/'') @ CHR ''/'' # e"
        by (simp add: strings_Join_snoc)
      have "backtrack ((CHR ''/'' # strings_Join es' ''/'') @ CHR ''/'' # e) dd
              (length (CHR ''/'' # strings_Join es' ''/'') + length e)
          = length (CHR ''/'' # strings_Join es' ''/'')"
        using e1 dd by (intro backtrack_to_separator) simp_all
      then have "backtrack out dd (length out - 1) = length (CHR ''/'' # strings_Join es' ''/'')"
        using o by simp
      then have "take (backtrack out dd (length out - 1)) out = CHR ''/'' # strings_Join es' ''/''"
        using o by simp
      then show ?thesis using \<open>r\<close> dd clean_state_rooted [OF es'] by simp
    qed
  next
    case False
    with shape have out: "out = strings_Join (replicate k ''..'' @ es) ''/''"
      and dd: "dd = length (strings_Join (replicate k ''..'') ''/'')" by simp_all
    show ?thesis
    proof (cases "replicate k ''..'' @ es' = []")
      case True
      then have k: "k = 0" and "es' = []" by simp_all
      with out split have o: "out = [] @ e" by simp
      from k dd have dd0: "dd = 0" by simp
      have "backtrack ([] @ e) (length ([]::string)) (length ([]::string) + (length e - 1))
          = length ([]::string)"
        using e1 e2 by (intro backtrack_to_dotdot) simp_all
      then have "backtrack out dd (length out - 1) = 0" using o dd0 by simp
      then have t: "take (backtrack out dd (length out - 1)) out = []" by (simp only: take_0)
      have "clean_state False [] 0" using clean_state_unrooted [of "[]" 0] by simp
      then show ?thesis unfolding t using \<open>\<not> r\<close> dd0 by simp
    next
      case False
      let ?Q = "strings_Join (replicate k ''..'' @ es') ''/''"
      from False out split have o: "out = ?Q @ CHR ''/'' # e"
        using strings_Join_snoc [of "replicate k ''..'' @ es'" e "''/''"] by simp
      have "dd \<le> length ?Q" unfolding dd by (rule length_strings_Join_prefix)
      then have "backtrack (?Q @ CHR ''/'' # e) dd (length ?Q + length e) = length ?Q"
        using e1 by (intro backtrack_to_separator) simp_all
      then have "backtrack out dd (length out - 1) = length ?Q" using o by simp
      then have "take (backtrack out dd (length out - 1)) out = ?Q" using o by simp
      then show ?thesis using \<open>\<not> r\<close> dd clean_state_unrooted [OF es', of k] by simp
    qed
  qed
qed

lemma state_append_dotdot:
  assumes "clean_state False out dd" and "\<not> length out > dd"
  shows "clean_state False ((if length out > 0 then out @ ''/'' else out) @ ''..'')
           (length ((if length out > 0 then out @ ''/'' else out) @ ''..''))"
proof -
  from assms(1) obtain k es where es: "list_all normal_element es"
    and out: "out = strings_Join (replicate k ''..'' @ es) ''/''"
    and dd: "dd = length (strings_Join (replicate k ''..'') ''/'')"
    unfolding clean_state_def by auto
  have "es = []"
  proof (rule ccontr)
    assume "es \<noteq> []"
    then have "length (strings_Join (replicate k ''..'') ''/'')
        < length (strings_Join (replicate k ''..'' @ es) ''/'')"
      using es by (intro length_strings_Join_longer normal_nonempty)
    with assms(2) out dd show False by simp
  qed
  with out have out': "out = strings_Join (replicate k ''..'') ''/''" by simp
  have "(if length out > 0 then out @ ''/'' else out) @ ''..''
      = strings_Join (replicate (Suc k) ''..'') ''/''"
  proof (cases k)
    case 0
    with out' show ?thesis by simp
  next
    case (Suc j)
    then have ne: "replicate k ''..'' \<noteq> []" by simp
    then have "out \<noteq> []"
      using out' strings_Join_Nil_iff [OF dots_nonempty, of k "''/''"] by simp
    moreover have "strings_Join (replicate k ''..'' @ [''..'']) ''/'' = out @ ''/'' @ ''..''"
      using ne out' by (simp add: strings_Join_snoc)
    ultimately show ?thesis by (simp add: replicate_append_same)
  qed
  then show ?thesis
    using clean_state_unrooted [of "[]" "Suc k"] by simp
qed

lemma state_append_element:
  assumes "clean_state r out dd" and "normal_element e"
  shows "clean_state r
      ((if r \<and> length out \<noteq> 1 \<or> \<not> r \<and> length out \<noteq> 0 then out @ ''/'' else out) @ e) dd"
proof -
  from assms(1) obtain k es where es: "list_all normal_element es"
    and shape: "if r then out = CHR ''/'' # strings_Join es ''/'' \<and> dd = 1
         else out = strings_Join (replicate k ''..'' @ es) ''/''
              \<and> dd = length (strings_Join (replicate k ''..'') ''/'')"
    unfolding clean_state_def by blast
  from es assms(2) have es': "list_all normal_element (es @ [e])" by simp
  show ?thesis
  proof (cases r)
    case True
    with shape have out: "out = CHR ''/'' # strings_Join es ''/''" and dd: "dd = 1" by simp_all
    have "(if length out \<noteq> 1 then out @ ''/'' else out) @ e = CHR ''/'' # strings_Join (es @ [e]) ''/''"
    proof (cases "es = []")
      case True
      with out show ?thesis by simp
    next
      case False
      then have "strings_Join es ''/'' \<noteq> []"
        using strings_Join_Nil_iff [OF normal_nonempty [OF es], of "''/''"] by simp
      with out False show ?thesis by (simp add: strings_Join_snoc)
    qed
    then show ?thesis using True dd clean_state_rooted [OF es'] by simp
  next
    case False
    with shape have out: "out = strings_Join (replicate k ''..'' @ es) ''/''"
      and dd: "dd = length (strings_Join (replicate k ''..'') ''/'')" by simp_all
    have all: "list_all (\<lambda>e. e \<noteq> []) (replicate k ''..'' @ es)"
      using dots_nonempty [of k] normal_nonempty [OF es] by simp
    have "(if length out \<noteq> 0 then out @ ''/'' else out) @ e
        = strings_Join (replicate k ''..'' @ es @ [e]) ''/''"
    proof (cases "replicate k ''..'' @ es = []")
      case True
      with out show ?thesis by simp
    next
      case False
      then have "out \<noteq> []" using out strings_Join_Nil_iff [OF all, of "''/''"] by simp
      moreover have "strings_Join ((replicate k ''..'' @ es) @ [e]) ''/'' = out @ ''/'' @ e"
        using False out strings_Join_snoc [of "replicate k ''..'' @ es" e "''/''"] by simp
      ultimately show ?thesis by simp
    qed
    then show ?thesis using False dd clean_state_unrooted [OF es', of k] by simp
  qed
qed

lemma element_of_normal:
  assumes "\<not> IsPathSeparator c"
    and "\<not> (c = CHR ''.'' \<and> (cs = [] \<or> IsPathSeparator (hd cs)))"
    and "\<not> (c = CHR ''.'' \<and> hd cs = CHR ''.'' \<and> (tl cs = [] \<or> IsPathSeparator (hd (tl cs))))"
  shows "normal_element (element_of (c # cs))"
proof -
  have nosep: "CHR ''/'' \<notin> set (element_of (c # cs))"
    using set_takeWhileD [of "CHR ''/''" "\<lambda>c. \<not> IsPathSeparator c" "c # cs"]
    by (auto simp: IsPathSeparator_def)
  have tw: "element_of xs = [] \<longleftrightarrow> xs = [] \<or> IsPathSeparator (hd xs)" for xs
    by (cases xs) auto
  have "element_of (c # cs) \<noteq> ''.''"
    using assms(1,2) by (auto simp: tw)
  moreover have "element_of (c # cs) \<noteq> ''..''"
  proof (cases cs)
    case Nil
    then show ?thesis using assms(1) by simp
  next
    case (Cons d ds)
    then show ?thesis using assms by (auto simp: tw)
  qed
  ultimately show ?thesis using nosep assms(1) by (simp add: normal_element_def)
qed

lemma clean_step_state:
  assumes "clean_state r out dd"
  shows "clean_state r (fst (clean_step r out dd c cs)) (fst (snd (clean_step r out dd c cs)))"
proof -
  consider (skip) "IsPathSeparator c \<or> c = CHR ''.'' \<and> (cs = [] \<or> IsPathSeparator (hd cs))"
    | (dotdot) "\<not> IsPathSeparator c" "\<not> (c = CHR ''.'' \<and> (cs = [] \<or> IsPathSeparator (hd cs)))"
        "c = CHR ''.'' \<and> hd cs = CHR ''.'' \<and> (tl cs = [] \<or> IsPathSeparator (hd (tl cs)))"
    | (element) "\<not> IsPathSeparator c" "\<not> (c = CHR ''.'' \<and> (cs = [] \<or> IsPathSeparator (hd cs)))"
        "\<not> (c = CHR ''.'' \<and> hd cs = CHR ''.'' \<and> (tl cs = [] \<or> IsPathSeparator (hd (tl cs))))"
    by blast
  then show ?thesis
  proof cases
    case skip
    then show ?thesis using assms by (auto simp: clean_step_def)
  next
    case dotdot
    then have step: "clean_step r out dd c cs =
        (if length out > dd then (take (backtrack out dd (length out - 1)) out, dd, tl cs)
         else if \<not> r then ((if length out > 0 then out @ ''/'' else out) @ ''..'',
              length ((if length out > 0 then out @ ''/'' else out) @ ''..''), tl cs)
         else (out, dd, tl cs))"
      by (simp add: clean_step_def)
    show ?thesis
    proof (cases "length out > dd")
      case True
      then show ?thesis using step state_backtrack [OF assms True] by simp
    next
      case False
      show ?thesis
      proof (cases r)
        case True
        then show ?thesis using step False assms by simp
      next
        case nr: False
        with assms have "clean_state False out dd" by simp
        from state_append_dotdot [OF this False] show ?thesis using step False nr by simp
      qed
    qed
  next
    case element
    then have step: "clean_step r out dd c cs =
        ((if r \<and> length out \<noteq> 1 \<or> \<not> r \<and> length out \<noteq> 0 then out @ ''/'' else out)
           @ element_of (c # cs), dd, after_element (c # cs))"
      unfolding clean_step_def by (simp only: if_False)
    from element have "normal_element (element_of (c # cs))" by (rule element_of_normal)
    from state_append_element [OF assms this] show ?thesis using step by simp
  qed
qed

lemma clean_loop_state:
  "clean_state r out dd \<Longrightarrow>
     clean_state r (fst (clean_loop r out dd X)) (snd (clean_loop r out dd X))"
proof (induction r out dd X rule: clean_loop.induct)
  case (1 rooted out dotdot)
  then show ?case by simp
next
  case (2 rooted out dotdot c cs)
  from clean_step_state [OF "2.prems"] "2.IH" show ?case by simp
qed

lemma reread_rooted:
  "list_all normal_element es \<Longrightarrow>
     clean_loop True ''/'' 1 (strings_Join es ''/'') = (CHR ''/'' # strings_Join es ''/'', 1)"
proof (induction es rule: rev_induct)
  case Nil
  show ?case by simp
next
  case (snoc e es)
  then have es: "list_all normal_element es" and e: "normal_element e" by simp_all
  show ?case
  proof (cases "es = []")
    case True
    then show ?thesis using clean_loop_element [OF e, of True "''/''" 1] by simp
  next
    case False
    then have ne: "strings_Join es ''/'' \<noteq> []"
      using strings_Join_Nil_iff [OF normal_nonempty [OF es], of "''/''"] by simp
    have "clean_loop True ''/'' 1 (strings_Join (es @ [e]) ''/'')
        = clean_loop True ''/'' 1 (strings_Join es ''/'' @ CHR ''/'' # e)"
      using False by (simp add: strings_Join_snoc)
    also have "\<dots> = clean_loop True (CHR ''/'' # strings_Join es ''/'') 1 (CHR ''/'' # e)"
      by (simp only: clean_loop_cont snoc.IH [OF es] fst_conv snd_conv)
    also have "\<dots> = clean_loop True (CHR ''/'' # strings_Join es ''/'') 1 e"
      by (rule clean_loop_slash)
    also have "\<dots> = ((CHR ''/'' # strings_Join es ''/'') @ ''/'' @ e, 1)"
      using clean_loop_element [OF e, of True "CHR ''/'' # strings_Join es ''/''" 1] ne by simp
    finally show ?thesis using False by (simp add: strings_Join_snoc)
  qed
qed

lemma reread_dots:
  "clean_loop False [] 0 (strings_Join (replicate k ''..'') ''/'')
     = (strings_Join (replicate k ''..'') ''/'', length (strings_Join (replicate k ''..'') ''/''))"
proof (induction k)
  case 0
  show ?case by simp
next
  case (Suc k)
  let ?D = "strings_Join (replicate k ''..'') ''/''"
  show ?case
  proof (cases k)
    case 0
    then show ?thesis by (simp add: clean_step_def IsPathSeparator_def)
  next
    case (Suc j)
    then have ne: "replicate k ''..'' \<noteq> []" by simp
    then have D: "?D \<noteq> []"
      using strings_Join_Nil_iff [OF dots_nonempty, of k "''/''"] by simp
    have J: "strings_Join (replicate (Suc k) ''..'') ''/'' = ?D @ CHR ''/'' # ''..''"
      using ne strings_Join_snoc [of "replicate k ''..''" "''..''" "''/''"]
      by (simp add: replicate_append_same)
    have "clean_loop False [] 0 (?D @ CHR ''/'' # ''..'')
        = clean_loop False ?D (length ?D) (CHR ''/'' # ''..'')"
      by (simp only: clean_loop_cont Suc.IH fst_conv snd_conv)
    also have "\<dots> = clean_loop False ?D (length ?D) ''..''"
      by (rule clean_loop_slash)
    also have "\<dots> = (?D @ ''/'' @ ''..'', length (?D @ ''/'' @ ''..''))"
      using D by (subst clean_loop_dotdot) simp
    finally show ?thesis unfolding J by simp
  qed
qed

lemma reread_unrooted:
  "list_all normal_element es \<Longrightarrow>
     clean_loop False [] 0 (strings_Join (replicate k ''..'' @ es) ''/'')
       = (strings_Join (replicate k ''..'' @ es) ''/'', length (strings_Join (replicate k ''..'') ''/''))"
proof (induction es rule: rev_induct)
  case Nil
  show ?case using reread_dots [of k] by simp
next
  case (snoc e es)
  then have es: "list_all normal_element es" and e: "normal_element e" by simp_all
  let ?xs = "replicate k ''..'' @ es"
  let ?P = "strings_Join ?xs ''/''"
  let ?d = "length (strings_Join (replicate k ''..'') ''/'')"
  show ?case
  proof (cases "?xs = []")
    case True
    then show ?thesis using clean_loop_element [OF e, of False "[]" 0] by simp
  next
    case False
    have all: "list_all (\<lambda>e. e \<noteq> []) ?xs"
      using dots_nonempty [of k] normal_nonempty [OF es] by simp
    have ne: "?P \<noteq> []" using False strings_Join_Nil_iff [OF all, of "''/''"] by simp
    have J: "strings_Join (replicate k ''..'' @ es @ [e]) ''/'' = ?P @ CHR ''/'' # e"
      using False strings_Join_snoc [of ?xs e "''/''"] by simp
    have "clean_loop False [] 0 (?P @ CHR ''/'' # e) = clean_loop False ?P ?d (CHR ''/'' # e)"
      by (simp only: clean_loop_cont snoc.IH [OF es] fst_conv snd_conv)
    also have "\<dots> = clean_loop False ?P ?d e"
      by (rule clean_loop_slash)
    also have "\<dots> = (?P @ ''/'' @ e, ?d)"
      using clean_loop_element [OF e, of False ?P ?d] ne by simp
    finally show ?thesis unfolding J by simp
  qed
qed

lemma hd_strings_Join: "x \<noteq> [] \<Longrightarrow> hd (strings_Join (x # xs) sep) = hd x"
  by (cases xs) simp_all

lemma clean_state_empty: "clean_state r [] dd \<Longrightarrow> \<not> r \<and> dd = 0"
proof -
  assume "clean_state r [] dd"
  then obtain k es where es: "list_all normal_element es"
    and shape: "if r then [] = CHR ''/'' # strings_Join es ''/'' \<and> dd = 1
         else [] = strings_Join (replicate k ''..'' @ es) ''/''
              \<and> dd = length (strings_Join (replicate k ''..'') ''/'')"
    unfolding clean_state_def by blast
  from shape have nr: "\<not> r" by (cases r) auto
  with shape have J: "strings_Join (replicate k ''..'' @ es) ''/'' = []"
    and dd: "dd = length (strings_Join (replicate k ''..'') ''/'')" by simp_all
  have "list_all (\<lambda>e. e \<noteq> []) (replicate k ''..'' @ es)"
    using dots_nonempty [of k] normal_nonempty [OF es] by simp
  from strings_Join_Nil_iff [OF this, of "''/''"] J have "replicate k ''..'' @ es = []" by simp
  then have "k = 0" by simp
  with dd nr show ?thesis by simp
qed

lemma clean_run_reread:
  assumes "clean_state r out dd" and "out \<noteq> []"
  shows "clean_run out = (out, dd) \<and> IsPathSeparator (hd out) = r"
proof -
  from assms(1) obtain k es where es: "list_all normal_element es"
    and shape: "if r then out = CHR ''/'' # strings_Join es ''/'' \<and> dd = 1
         else out = strings_Join (replicate k ''..'' @ es) ''/''
              \<and> dd = length (strings_Join (replicate k ''..'') ''/'')"
    unfolding clean_state_def by blast
  show ?thesis
  proof (cases r)
    case True
    with shape have out: "out = CHR ''/'' # strings_Join es ''/''" and dd: "dd = 1" by simp_all
    then show ?thesis using True reread_rooted [OF es]
      by (simp add: clean_run_def IsPathSeparator_def)
  next
    case False
    with shape have out: "out = strings_Join (replicate k ''..'' @ es) ''/''"
      and dd: "dd = length (strings_Join (replicate k ''..'') ''/'')" by simp_all
    from assms(2) out obtain x xs where xs: "replicate k ''..'' @ es = x # xs"
      by (cases "replicate k ''..'' @ es") auto
    have "x \<noteq> [] \<and> hd x \<noteq> CHR ''/''"
    proof (cases k)
      case 0
      with xs es have "normal_element x" by simp
      then show ?thesis by (cases x) (auto simp: normal_element_def)
    next
      case (Suc j)
      with xs have "x = ''..''" by simp
      then show ?thesis by simp
    qed
    then have "\<not> IsPathSeparator (hd out)"
      using out xs hd_strings_Join [of x xs "''/''"] by (simp add: IsPathSeparator_def)
    then show ?thesis using False out dd reread_unrooted [OF es, of k]
      by (simp add: clean_run_def)
  qed
qed

lemma clean_run_state:
  "clean_state (IsPathSeparator (hd p)) (fst (clean_run p)) (snd (clean_run p))"
proof (cases "IsPathSeparator (hd p)")
  case True
  have "clean_state True ''/'' 1" using clean_state_rooted [of "[]"] by simp
  from clean_loop_state [OF this, of "tl p"] True show ?thesis by (simp add: clean_run_def)
next
  case False
  have "clean_state False [] 0" using clean_state_unrooted [of "[]" 0] by simp
  from clean_loop_state [OF this, of p] False show ?thesis by (simp add: clean_run_def)
qed

lemma clean_run_cont:
  "p \<noteq> [] \<Longrightarrow>
     clean_run (p @ CHR ''/'' # Y) =
       clean_loop (IsPathSeparator (hd p)) (fst (clean_run p)) (snd (clean_run p)) (CHR ''/'' # Y)"
  by (simp add: clean_run_def clean_loop_cont)

lemma Clean_run:
  "Clean p = (if p = [] \<or> fst (clean_run p) = [] then ''.'' else fst (clean_run p))"
  by (simp add: Clean_def clean_run_def Let_def)

lemma Clean_nonempty [simp]: "Clean p \<noteq> []"
  by (simp add: Clean_run)

lemma clean_run_Clean:
  assumes "p \<noteq> []"
  shows "clean_run (Clean p) = clean_run p \<and> IsPathSeparator (hd (Clean p)) = IsPathSeparator (hd p)"
proof (cases "fst (clean_run p) = []")
  case True
  with clean_run_state [of p] have "clean_state (IsPathSeparator (hd p)) [] (snd (clean_run p))"
    by simp
  from clean_state_empty [OF this] have "\<not> IsPathSeparator (hd p)" and "snd (clean_run p) = 0"
    by simp_all
  with True have "clean_run p = ([], 0)" by (simp add: prod_eq_iff)
  moreover have "Clean p = ''.''" using True by (simp add: Clean_run)
  moreover have "clean_run ''.'' = ([], 0)"
    by (simp add: clean_run_def clean_step_def IsPathSeparator_def)
  ultimately show ?thesis using \<open>\<not> IsPathSeparator (hd p)\<close> by (simp add: IsPathSeparator_def)
next
  case False
  then have "Clean p = fst (clean_run p)" using assms by (simp add: Clean_run)
  with clean_run_reread [OF clean_run_state [of p] False] show ?thesis by simp
qed

lemma Clean_idempotent: "Clean (Clean p) = Clean p"
proof (cases "p = []")
  case True
  then show ?thesis by (simp add: Clean_def clean_step_def IsPathSeparator_def)
next
  case False
  from clean_run_Clean [OF False] have eq: "clean_run (Clean p) = clean_run p" by simp
  have "Clean (Clean p) =
      (if fst (clean_run (Clean p)) = [] then ''.'' else fst (clean_run (Clean p)))"
    by (subst Clean_run) simp
  also have "\<dots> = Clean p" unfolding eq using False by (simp add: Clean_run)
  finally show ?thesis .
qed

lemma Clean_Clean_append:
  assumes "X \<noteq> []"
  shows "Clean (Clean X @ CHR ''/'' # Y) = Clean (X @ CHR ''/'' # Y)"
proof -
  have "clean_run (Clean X @ CHR ''/'' # Y) = clean_run (X @ CHR ''/'' # Y)"
    using clean_run_Clean [OF assms] assms by (simp add: clean_run_cont)
  then show ?thesis by (simp add: Clean_run)
qed

lemma Clean_fixed_append:
  assumes "Clean p = p" and "p \<noteq> ''.''"
  shows "clean_run (p @ CHR ''/'' # Y) =
     clean_loop (IsPathSeparator (hd p)) p (snd (clean_run p)) (CHR ''/'' # Y)"
proof -
  from assms(1) have ne: "p \<noteq> []" using Clean_nonempty [of p] by auto
  with assms have "fst (clean_run p) = p" by (auto simp: Clean_run split: if_splits)
  with clean_run_cont [OF ne, of Y] show ?thesis by simp
qed

section \<open>Facts about \<^verbatim>\<open>Join\<close>\<close>

lemma Clean_append_element:
  assumes "Clean p = p" and "p \<noteq> ''.''" and "p \<noteq> ''/''" and "normal_element f"
  shows "Clean (p @ CHR ''/'' # f) = p @ CHR ''/'' # f"
proof -
  let ?r = "IsPathSeparator (hd p)"
  let ?dd = "snd (clean_run p)"
  from assms(1) have ne: "p \<noteq> []" using Clean_nonempty [of p] by auto
  have len: "\<not> (?r \<and> length p = 1)"
  proof
    assume a: "?r \<and> length p = 1"
    then obtain c where "p = [c]" by (cases p) auto
    with a assms(3) show False by (simp add: IsPathSeparator_def)
  qed
  have "clean_run (p @ CHR ''/'' # f) = clean_loop ?r p ?dd (CHR ''/'' # f)"
    using assms(1,2) by (rule Clean_fixed_append)
  also have "\<dots> = clean_loop ?r p ?dd f" by (rule clean_loop_slash)
  also have "\<dots> = (p @ ''/'' @ f, ?dd)"
    using clean_loop_element [OF assms(4), of ?r p ?dd] ne len by auto
  finally show ?thesis by (simp add: Clean_run)
qed

lemma Join_dot:
  "\<exists>x\<in>set xs. x \<noteq> [] \<Longrightarrow> Join (xs @ [''.'']) = Join xs"
proof (induction xs)
  case Nil
  then show ?case by simp
next
  case (Cons e es)
  show ?case
  proof (cases "e = []")
    case True
    with Cons show ?thesis by simp
  next
    case False
    then have "strings_Join (e # es) ''/'' \<noteq> []" by (cases es) simp_all
    moreover have "strings_Join ((e # es) @ [''.'']) ''/'' = strings_Join (e # es) ''/'' @ ''/.''"
      using strings_Join_snoc [of "e # es" "''.''" "''/''"] by simp
    ultimately show ?thesis using False Clean_dot_suffix [of "strings_Join (e # es) ''/''"]
      by simp
  qed
qed

lemma Join_Join:
  "\<exists>x\<in>set xs. x \<noteq> [] \<Longrightarrow> Join [Join xs, b] = Join (xs @ [b])"
proof (induction xs)
  case Nil
  then show ?case by simp
next
  case (Cons e es)
  show ?case
  proof (cases "e = []")
    case True
    with Cons show ?thesis by simp
  next
    case False
    then have ne: "strings_Join (e # es) ''/'' \<noteq> []" by (cases es) simp_all
    have "strings_Join ((e # es) @ [b]) ''/'' = strings_Join (e # es) ''/'' @ CHR ''/'' # b"
      using strings_Join_snoc [of "e # es" b "''/''"] by simp
    then show ?thesis using False Clean_Clean_append [OF ne, of b] by simp
  qed
qed

lemma long_not_single: "2 \<le> length x \<Longrightarrow> x \<noteq> [c]"
  by (cases x) auto

lemma Join_literal:
  assumes "Clean h = h" and "h \<noteq> ''.''" and "h \<noteq> ''/''"
    and "normal_element a" and "normal_element b"
  shows "Join [h, a, b] = h @ ''/'' @ a @ ''/'' @ b"
proof -
  from assms(1) have ne: "h \<noteq> []" using Clean_nonempty [of h] by auto
  have 1: "Clean (h @ CHR ''/'' # a) = h @ CHR ''/'' # a"
    using assms(1-4) by (rule Clean_append_element)
  have 2: "length (h @ CHR ''/'' # a) \<ge> 2" using ne by (cases h) simp_all
  have "Clean ((h @ CHR ''/'' # a) @ CHR ''/'' # b) = (h @ CHR ''/'' # a) @ CHR ''/'' # b"
  proof (rule Clean_append_element)
    show "Clean (h @ CHR ''/'' # a) = h @ CHR ''/'' # a" by (rule 1)
    show "h @ CHR ''/'' # a \<noteq> ''.''" using 2 by (rule long_not_single)
    show "h @ CHR ''/'' # a \<noteq> ''/''" using 2 by (rule long_not_single)
    show "normal_element b" by (rule assms(5))
  qed
  then show ?thesis using ne by simp
qed

lemma Join_literal4:
  assumes "Clean h = h" and "h \<noteq> ''.''" and "h \<noteq> ''/''"
    and "normal_element a" and "normal_element b" and "normal_element c"
  shows "Join [h, a, b, c] = h @ ''/'' @ a @ ''/'' @ b @ ''/'' @ c"
proof -
  have "Join [h, a, b, c] = Join [Join [h, a, b], c]"
    using Join_Join [of "[h, a, b]" c] assms(4) by (auto simp: normal_element_def)
  also have "\<dots> = Clean ((h @ ''/'' @ a @ ''/'' @ b) @ CHR ''/'' # c)"
    using Join_literal [OF assms(1-5)] by simp
  also have "\<dots> = (h @ ''/'' @ a @ ''/'' @ b) @ CHR ''/'' # c"
  proof (rule Clean_append_element)
    have "Clean (Join [h, a, b]) = Join [h, a, b]"
      using Clean_idempotent [of "strings_Join [h, a, b] ''/''"] Clean_nonempty [of h] assms(1)
      by (cases "h = []") auto
    then show "Clean (h @ ''/'' @ a @ ''/'' @ b) = h @ ''/'' @ a @ ''/'' @ b"
      unfolding Join_literal [OF assms(1-5)] .
    have "length (h @ ''/'' @ a @ ''/'' @ b) \<ge> 2" by simp
    then show "h @ ''/'' @ a @ ''/'' @ b \<noteq> ''.''" "h @ ''/'' @ a @ ''/'' @ b \<noteq> ''/''"
      by (rule long_not_single)+
    show "normal_element c" by (rule assms(6))
  qed
  finally show ?thesis by simp
qed

section \<open>Properties of the Init Workflow\<close>

text \<open>
  Claim C7, as amended. For a name without the suffix \<^verbatim>\<open>.fossil\<close> the normalisation
  appends it once; a name that has the suffix is left as it is; normalising twice
  is normalising once; the result always ends in \<^verbatim>\<open>.fossil\<close>. The result ends in
  a doubled suffix \<^verbatim>\<open>.fossil.fossil\<close> exactly when the argument already did, so
  it ends in exactly one suffix for every argument that does not.
\<close>

theorem init_repoName_normalises:
  "(\<not> HasSuffix repoArg ''.fossil'' \<longrightarrow> init_repoName repoArg = repoArg @ ''.fossil'') \<and>
   (HasSuffix repoArg ''.fossil'' \<longrightarrow> init_repoName repoArg = repoArg) \<and>
   init_repoName (init_repoName repoArg) = init_repoName repoArg \<and>
   HasSuffix (init_repoName repoArg) ''.fossil'' \<and>
   (HasSuffix (init_repoName repoArg) ''.fossil.fossil'' \<longleftrightarrow> HasSuffix repoArg ''.fossil.fossil'')"
proof -
  have "HasSuffix (repoArg @ ''.fossil'') ''.fossil.fossil'' \<longleftrightarrow> HasSuffix repoArg ''.fossil''"
    by (auto simp: HasSuffix_iff)
  moreover have "HasSuffix repoArg ''.fossil.fossil'' \<Longrightarrow> HasSuffix repoArg ''.fossil''"
    by (auto simp: HasSuffix_iff)
  ultimately show ?thesis
    by (auto simp: init_repoName_def)
qed

theorem init_repoName_normalises_witness:
  "init_repoName ''tester'' = ''tester.fossil'' \<and> init_repoName ''tester.fossil'' = ''tester.fossil''
     \<and> \<not> HasSuffix (init_repoName ''tester'') ''.fossil.fossil''"
  using init_repoName_normalises [of "''tester''"] init_repoName_normalises [of "''tester.fossil''"]
  by (simp add: HasSuffix_def)

text \<open>
  Claim C7 as stated fails: a name that already ends in a doubled suffix is left
  unchanged, so the result ends in two suffixes \<^verbatim>\<open>.fossil\<close>, not in exactly one.
\<close>

theorem init_repoName_doubled_suffix_counterexample:
  "init_repoName ''a.fossil.fossil'' = ''a.fossil.fossil'' \<and>
   HasSuffix (init_repoName ''a.fossil.fossil'') ''.fossil.fossil''"
  by (simp add: init_repoName_def HasSuffix_def)

text \<open>
  Claim C9. With the flag \<^verbatim>\<open>--password\<close> absent or empty, the Init Workflow ends in
  \<^verbatim>\<open>log.Fatal\<close> with an empty trace: no external command has been started, the
  capturing \<^verbatim>\<open>whoami\<close> included, whatever the environment and the other
  arguments.
\<close>

theorem init_without_password:
  "outcome (teryx_init e repoArg None user_flag) = Fatal PasswordRequired \<and>
   invocations (trace (teryx_init e repoArg None user_flag)) = [] \<and>
   trace (teryx_init e repoArg None user_flag) = [] \<and>
   outcome (teryx_init e repoArg (Some []) user_flag) = Fatal PasswordRequired \<and>
   invocations (trace (teryx_init e repoArg (Some []) user_flag)) = [] \<and>
   trace (teryx_init e repoArg (Some []) user_flag) = []"
  by (simp add: teryx_init_def GetString_def initCmd_def halt_def)

section \<open>Properties of the Transfer Workflow\<close>

lemma invocations_append [simp]: "invocations (t @ u) = invocations t @ invocations u"
  by (induction t rule: invocations.induct) simp_all

lemma transfer_report_outcome:
  "outcome (transfer_report repoName destination remoteUser t) =
     (if CHR '':'' \<in> set destination then Done else Panic)"
  by (simp add: transfer_report_def halt_def Let_def length_SplitN_colon)

lemma transfer_report_invocations:
  "invocations (trace (transfer_report repoName destination remoteUser t)) = invocations t"
  by (simp add: transfer_report_def halt_def Let_def)

text \<open>
  Claim C1. When the primary delivery (scp) succeeds, the run ends in a panic if
  the destination has no \<^verbatim>\<open>:\<close> (the success block reads \<^verbatim>\<open>parts[1]\<close> of a
  one-element split), and it ends normally if the destination has one: the
  success path is total exactly for destinations with a \<^verbatim>\<open>:\<close>. The panic comes
  after the blank line of the success block, where the remediation command
  would be built and printed. The destination is non-empty, since scp is only
  reached then.
\<close>

theorem transfer_success_path_panics_iff_no_colon:
  assumes "destination \<noteq> []"
    and "run_ok e (command [] ''scp'' [repoName, destination])"
  shows "outcome (transferCmd e repoName destination remoteUser) =
           (if CHR '':'' \<in> set destination then Done else Panic) \<and>
         (CHR '':'' \<notin> set destination \<longrightarrow>
            last (trace (transferCmd e repoName destination remoteUser)) = Print Blank)"
  using assms
  by (simp add: transferCmd_def executeCommand_def Let_def transfer_report_outcome
        transfer_report_def length_SplitN_colon halt_def)

theorem transfer_success_path_panics_witness:
  "''backup'' \<noteq> [] \<and> run_ok all_succeed (command [] ''scp'' [''repo.fossil'', ''backup''])
     \<and> outcome (transferCmd all_succeed ''repo.fossil'' ''backup'' ''www-data'') = Panic
     \<and> last (trace (transferCmd all_succeed ''repo.fossil'' ''backup'' ''www-data'')) = Print Blank"
  using transfer_success_path_panics_iff_no_colon
          [of "''backup''" all_succeed "''repo.fossil''" "''www-data''"]
  by (simp add: all_succeed_def)

text \<open>
  Claim C2 as stated fails: the destination \<^verbatim>\<open>backup\<close> does not split in two, and
  yet the run starts scp before the format error ends it.
\<close>

theorem transfer_malformed_destination_counterexample:
  "length (SplitN ''backup'' '':'' 2) \<noteq> 2 \<and>
   invocations (trace (transferCmd all_fail ''repo.fossil'' ''backup'' ''www-data''))
     = [command [] ''scp'' [''repo.fossil'', ''backup'']] \<and>
   outcome (transferCmd all_fail ''repo.fossil'' ''backup'' ''www-data'')
     = Fatal InvalidDestinationFormat"
  by (simp add: length_SplitN_colon transferCmd_def executeCommand_def Let_def halt_def
        all_fail_def)

text \<open>
  Claim C2, as amended. An empty destination is rejected before any external
  call. A non-empty destination that does not split in two on the first \<^verbatim>\<open>:\<close> is
  checked only after the primary delivery: scp is started first, and if it fails
  the format error ends the run with scp the only external call made (the
  fallback is not started).
\<close>

theorem transfer_validation_order:
  "(destination = [] \<longrightarrow>
      transferCmd e repoName destination remoteUser = halt [] (Fatal DestinationRequired)) \<and>
   (destination \<noteq> [] \<and> length (SplitN destination '':'' 2) \<noteq> 2
      \<and> \<not> run_ok e (command [] ''scp'' [repoName, destination]) \<longrightarrow>
      outcome (transferCmd e repoName destination remoteUser) = Fatal InvalidDestinationFormat \<and>
      invocations (trace (transferCmd e repoName destination remoteUser))
        = [command [] ''scp'' [repoName, destination]])"
  by (simp add: transferCmd_def executeCommand_def Let_def halt_def)

theorem transfer_validation_order_witness:
  "transferCmd all_fail ''repo.fossil'' [] ''www-data'' = halt [] (Fatal DestinationRequired) \<and>
   length (SplitN ''backup'' '':'' 2) \<noteq> 2 \<and>
   \<not> run_ok all_fail (command [] ''scp'' [''repo.fossil'', ''backup'']) \<and>
   outcome (transferCmd all_fail ''repo.fossil'' ''backup'' ''www-data'')
     = Fatal InvalidDestinationFormat"
  using transfer_validation_order [of "[]" all_fail "''repo.fossil''" "''www-data''"]
    transfer_validation_order [of "''backup''" all_fail "''repo.fossil''" "''www-data''"]
  by (simp add: length_SplitN_colon all_fail_def)

text \<open>
  Claim C3. For a destination without \<^verbatim>\<open>:\<close>, when the primary delivery fails the
  run ends in the fatal format error of the fallback path, and sftp has not been
  started. The destination is non-empty, since the primary delivery is only
  attempted then.
\<close>

theorem transfer_fallback_validation:
  assumes "CHR '':'' \<notin> set destination"
    and "destination \<noteq> []"
    and "\<not> run_ok e (command [] ''scp'' [repoName, destination])"
  shows "outcome (transferCmd e repoName destination remoteUser) = Fatal InvalidDestinationFormat
     \<and> attempts ''sftp'' (transferCmd e repoName destination remoteUser) = 0"
  using assms
  by (simp add: transferCmd_def executeCommand_def Let_def halt_def length_SplitN_colon
        attempts_def command_def)

theorem transfer_fallback_validation_witness:
  "CHR '':'' \<notin> set ''backup'' \<and> ''backup'' \<noteq> [] \<and>
   \<not> run_ok all_fail (command [] ''scp'' [''repo.fossil'', ''backup'']) \<and>
   outcome (transferCmd all_fail ''repo.fossil'' ''backup'' ''www-data'')
     = Fatal InvalidDestinationFormat \<and>
   attempts ''sftp'' (transferCmd all_fail ''repo.fossil'' ''backup'' ''www-data'') = 0"
  using transfer_fallback_validation [of "''backup''" all_fail "''repo.fossil''" "''www-data''"]
  by (simp add: all_fail_def)

text \<open>
  Claim C4 as stated fails: for the destination \<^verbatim>\<open>backup\<close> scp is attempted and
  fails, and no sftp attempt follows, where the claim promises exactly one.
\<close>

theorem transfer_no_fallback_attempt_counterexample:
  "attempts ''scp'' (transferCmd all_fail ''repo.fossil'' ''backup'' ''www-data'') = 1 \<and>
   \<not> run_ok all_fail (command [] ''scp'' [''repo.fossil'', ''backup'']) \<and>
   attempts ''sftp'' (transferCmd all_fail ''repo.fossil'' ''backup'' ''www-data'') = 0"
  by (simp add: transferCmd_def executeCommand_def Let_def halt_def length_SplitN_colon
        attempts_def command_def all_fail_def)

text \<open>
  Claim C4, as amended. Each mechanism is attempted at most once. If the primary
  delivery succeeds, sftp is never attempted. If it fails, exactly one sftp
  attempt is made when the destination contains a \<^verbatim>\<open>:\<close>, whatever the outcome of
  that attempt, and none when it does not.
\<close>

theorem transfer_attempt_counts:
  "attempts ''scp'' (transferCmd e repoName destination remoteUser) \<le> 1 \<and>
   attempts ''sftp'' (transferCmd e repoName destination remoteUser) \<le> 1 \<and>
   (run_ok e (command [] ''scp'' [repoName, destination]) \<longrightarrow>
      attempts ''sftp'' (transferCmd e repoName destination remoteUser) = 0) \<and>
   (destination \<noteq> [] \<and> \<not> run_ok e (command [] ''scp'' [repoName, destination]) \<longrightarrow>
      attempts ''sftp'' (transferCmd e repoName destination remoteUser)
        = (if CHR '':'' \<in> set destination then 1 else 0))"
  by (simp add: transferCmd_def executeCommand_def Let_def halt_def length_SplitN_colon
        attempts_def command_def transfer_report_invocations)

theorem transfer_attempt_counts_witness:
  "run_ok all_succeed (command [] ''scp'' [''repo.fossil'', ''alice@example.com:/srv/fossil'']) \<and>
   attempts ''sftp'' (transferCmd all_succeed ''repo.fossil'' ''alice@example.com:/srv/fossil'' ''www-data'') = 0 \<and>
   ''alice@example.com:/srv/fossil'' \<noteq> [] \<and>
   \<not> run_ok all_fail (command [] ''scp'' [''repo.fossil'', ''alice@example.com:/srv/fossil'']) \<and>
   attempts ''sftp'' (transferCmd all_fail ''repo.fossil'' ''alice@example.com:/srv/fossil'' ''www-data'') = 1"
  using transfer_attempt_counts [of all_succeed "''repo.fossil''" "''alice@example.com:/srv/fossil''" "''www-data''"]
    transfer_attempt_counts [of all_fail "''repo.fossil''" "''alice@example.com:/srv/fossil''" "''www-data''"]
  by (simp add: all_succeed_def all_fail_def)

lemma SplitN_alice:
  "SplitN ''alice@example.com:/srv/fossil'' '':'' 2 = [''alice@example.com'', ''/srv/fossil'']"
  by code_simp

lemma srv_fossil_facts:
  "Clean ''/srv/fossil'' = ''/srv/fossil''"
  "normal_element ''repo.fossil''"
  "outcome (teryx_transfer all_succeed ''repo.fossil'' (Some ''alice@example.com:/srv/fossil'') None) = Done"
  by code_simp+

lemma Join_srv_fossil:
  "normal_element f \<Longrightarrow> Join [''/srv/fossil'', f] = ''/srv/fossil/'' @ f"
  using Clean_append_element [of "''/srv/fossil''" f] by (simp add: srv_fossil_facts)

text \<open>
  Claim C6. For the destination \<^verbatim>\<open>alice@example.com:/srv/fossil\<close>, a run that
  succeeds (by scp or by the sftp fallback) ends by printing the command
  \<^verbatim>\<open>ssh -t alice@example.com "sudo chown U:U P && sudo chmod 664 P"\<close> and the
  closing separator line, where \<open>U\<close> is the value of \<^verbatim>\<open>--remote-user\<close>, \<^verbatim>\<open>www-data\<close>
  when the flag is absent, and \<open>P\<close> is \<^verbatim>\<open>filepath.Join("/srv/fossil", repoName)\<close>.
  For a plain file name \<open>F\<close> (one path element, neither \<^verbatim>\<open>.\<close> nor \<^verbatim>\<open>..\<close>) that
  path is \<^verbatim>\<open>/srv/fossil/F\<close>. The only programs the run starts are scp and sftp:
  the ssh command is printed, never executed.
\<close>

theorem transfer_example_remediation:
  assumes "outcome (teryx_transfer e repoName (Some ''alice@example.com:/srv/fossil'') remote_user_flag) = Done"
  shows "drop (length (trace (teryx_transfer e repoName (Some ''alice@example.com:/srv/fossil'') remote_user_flag)) - 2)
           (trace (teryx_transfer e repoName (Some ''alice@example.com:/srv/fossil'') remote_user_flag))
      = [Print (RemediationCommand
           (''ssh -t alice@example.com '' @ dquote @ ''sudo chown ''
              @ GetString ''www-data'' remote_user_flag @ '':'' @ GetString ''www-data'' remote_user_flag
              @ '' '' @ Join [''/srv/fossil'', repoName]
              @ '' && sudo chmod 664 '' @ Join [''/srv/fossil'', repoName] @ dquote)),
         Print Separator] \<and>
    set (map cprog (invocations (trace (teryx_transfer e repoName (Some ''alice@example.com:/srv/fossil'') remote_user_flag))))
      \<subseteq> {''scp'', ''sftp''} \<and>
    (normal_element repoName \<longrightarrow> Join [''/srv/fossil'', repoName] = ''/srv/fossil/'' @ repoName)"
proof -
  have "normal_element repoName \<longrightarrow> Join [''/srv/fossil'', repoName] = ''/srv/fossil/'' @ repoName"
    using Join_srv_fossil [of repoName] by blast
  then show ?thesis
    using assms
    by (simp add: teryx_transfer_def GetString_def transferCmd_def transfer_report_def SplitN_alice
          executeCommand_def halt_def Let_def command_def
          split: if_splits option.splits del: Join.simps)
qed

theorem transfer_example_remediation_witness:
  "normal_element ''repo.fossil'' \<and>
   outcome (teryx_transfer all_succeed ''repo.fossil'' (Some ''alice@example.com:/srv/fossil'') None) = Done \<and>
   Print (RemediationCommand
           (''ssh -t alice@example.com '' @ dquote
              @ ''sudo chown www-data:www-data /srv/fossil/repo.fossil && sudo chmod 664 /srv/fossil/repo.fossil''
              @ dquote))
     \<in> set (trace (teryx_transfer all_succeed ''repo.fossil'' (Some ''alice@example.com:/srv/fossil'') None))"
proof -
  from transfer_example_remediation [OF srv_fossil_facts(3)]
  have "Print (RemediationCommand
           (''ssh -t alice@example.com '' @ dquote @ ''sudo chown ''
              @ GetString ''www-data'' None @ '':'' @ GetString ''www-data'' None
              @ '' '' @ Join [''/srv/fossil'', ''repo.fossil'']
              @ '' && sudo chmod 664 '' @ Join [''/srv/fossil'', ''repo.fossil''] @ dquote))
     \<in> set (drop (length (trace (teryx_transfer all_succeed ''repo.fossil'' (Some ''alice@example.com:/srv/fossil'') None)) - 2)
           (trace (teryx_transfer all_succeed ''repo.fossil'' (Some ''alice@example.com:/srv/fossil'') None)))"
    and "Join [''/srv/fossil'', ''repo.fossil''] = ''/srv/fossil/'' @ ''repo.fossil''"
    using srv_fossil_facts(2) by (simp_all del: Join.simps)
  then have "Print (RemediationCommand
           (''ssh -t alice@example.com '' @ dquote @ ''sudo chown ''
              @ GetString ''www-data'' None @ '':'' @ GetString ''www-data'' None
              @ '' '' @ (''/srv/fossil/'' @ ''repo.fossil'')
              @ '' && sudo chmod 664 '' @ (''/srv/fossil/'' @ ''repo.fossil'') @ dquote))
     \<in> set (trace (teryx_transfer all_succeed ''repo.fossil'' (Some ''alice@example.com:/srv/fossil'') None))"
    by (simp only: in_set_dropD)
  then show ?thesis by (simp add: srv_fossil_facts GetString_def)
qed

section \<open>Properties of the Clone Workflow\<close>

lemma directories_append [simp]: "directories (t @ u) = directories t @ directories u"
  by (induction t rule: directories.induct) simp_all

lemma parse_example: "url_Parse ''http://example.com/proj'' =
    Inr \<lparr>Scheme = ''http'', Opaque = [], User = None, Host = ''example.com'', Path = ''/proj'',
         ForceQuery = False, RawQuery = [], Fragment = [], OmitHost = False\<rparr>"
  by code_simp

lemma Hostname_example:
  "Hostname \<lparr>Scheme = ''http'', Opaque = [], User = None, Host = ''example.com'', Path = ''/proj'',
         ForceQuery = False, RawQuery = [], Fragment = [], OmitHost = False\<rparr> = ''example.com''"
  by code_simp

lemma small_facts:
  "TrimSuffix ''http://example.com/proj/home'' ''/home'' = ''http://example.com/proj''"
  "TrimPrefix ''/proj'' ''/'' = ''proj''"
  "Dir ''proj'' = ''.''"
  "Base ''proj'' = ''proj''"
  "TrimSuffix ''proj'' ''.fossil'' = ''proj''"
  "Join [''..'', ''proj.fossil''] = ''../proj.fossil''"
  "Dir [] = ''.''" "Base [] = ''.''" "TrimSuffix ''.'' ''.fossil'' = ''.''"
  "Join [''..'', ''..fossil''] = ''../..fossil''"
  "TrimPrefix [] ''/'' = []" "TrimPrefix ''/'' ''/'' = []"
  "normal_element ''fossils''" "normal_element ''example.com''" "normal_element ''proj''"
  by code_simp+

lemma all_succeed_clone_example:
  "outcome (cloneCmd all_succeed ''http://example.com/proj/home'') = Done"
  "Clean ''/home/bob'' = ''/home/bob''"
  "outcome (cloneCmd all_succeed ''http://example.com'') = Done"
  "url_Parse (TrimSuffix ''http://example.com'' ''/home'') =
     Inr \<lparr>Scheme = ''http'', Opaque = [], User = None, Host = ''example.com'', Path = [],
         ForceQuery = False, RawQuery = [], Fragment = [], OmitHost = False\<rparr>"
  "Hostname \<lparr>Scheme = ''http'', Opaque = [], User = None, Host = ''example.com'', Path = [],
         ForceQuery = False, RawQuery = [], Fragment = [], OmitHost = False\<rparr> = ''example.com''"
  "Join [''/home/bob'', ''fossils'', ''example.com''] = ''/home/bob/fossils/example.com''"
  by code_simp+

lemma all_succeed_user: "user_Current all_succeed = Some (''/home/bob'', ''bob'')"
  by (simp add: all_succeed_def)

text \<open>
  Claim C5. For the URL \<^verbatim>\<open>http://example.com/proj/home\<close> and a user with home
  directory \<open>homeDir\<close>, the first directory the run creates is the target
  directory \<^verbatim>\<open>filepath.Join(homeDir, "fossils", "example.com")\<close>, the parent of
  \<^verbatim>\<open>proj\<close>. A run that ends normally creates that directory and the checkout
  directory \<^verbatim>\<open>filepath.Join(homeDir, "fossils", "example.com", "proj")\<close>, runs
  \<^verbatim>\<open>fossil clone\<close> in the target directory with the file name \<^verbatim>\<open>proj.fossil\<close>, and
  \<^verbatim>\<open>fossil open ../proj.fossil\<close> in the checkout directory. For a home directory
  that is a cleaned path other than \<^verbatim>\<open>.\<close> and \<^verbatim>\<open>/\<close> the two directories are,
  letter for letter, \<open>homeDir\<close> followed by \<^verbatim>\<open>/fossils/example.com\<close> and by
  \<^verbatim>\<open>/fossils/example.com/proj\<close>.
\<close>

theorem clone_example_layout:
  assumes "user_Current e = Some (homeDir, username)"
  shows "take 1 (directories (trace (cloneCmd e ''http://example.com/proj/home'')))
           = [Join [homeDir, ''fossils'', ''example.com'']] \<and>
    (outcome (cloneCmd e ''http://example.com/proj/home'') = Done \<longrightarrow>
       directories (trace (cloneCmd e ''http://example.com/proj/home''))
         = [Join [homeDir, ''fossils'', ''example.com''],
            Join [homeDir, ''fossils'', ''example.com'', ''proj'']] \<and>
       invocations (trace (cloneCmd e ''http://example.com/proj/home''))
         = [\<lparr>cdir = Join [homeDir, ''fossils'', ''example.com''], cprog = ''fossil'',
             cargs = [Lit ''clone'',
                      URLString \<lparr>Scheme = ''http'', Opaque = [], User = Some (username, None),
                        Host = ''example.com'', Path = ''/proj'', ForceQuery = False,
                        RawQuery = [], Fragment = [], OmitHost = False\<rparr>,
                      Lit ''proj.fossil''],
             cwiring = Interactive\<rparr>,
            command (Join [homeDir, ''fossils'', ''example.com'', ''proj'']) ''fossil''
              [''open'', ''../proj.fossil'']]) \<and>
    (Clean homeDir = homeDir \<and> homeDir \<noteq> ''.'' \<and> homeDir \<noteq> ''/'' \<longrightarrow>
       Join [homeDir, ''fossils'', ''example.com''] = homeDir @ ''/fossils/example.com'' \<and>
       Join [homeDir, ''fossils'', ''example.com'', ''proj'']
         = homeDir @ ''/fossils/example.com/proj'')"
proof -
  have T: "Join [homeDir, ''fossils'', ''example.com'', ''.'']
      = Join [homeDir, ''fossils'', ''example.com'']"
    using Join_dot [of "[homeDir, ''fossils'', ''example.com'']"] by simp
  have C: "Join [Join [homeDir, ''fossils'', ''example.com''], ''proj'']
      = Join [homeDir, ''fossils'', ''example.com'', ''proj'']"
    using Join_Join [of "[homeDir, ''fossils'', ''example.com'']" "''proj''"] by simp
  have run: "cloneCmd e ''http://example.com/proj/home'' = clone_from e ''http://example.com/proj''"
    by (simp add: cloneCmd_def small_facts)
  have lit: "Clean homeDir = homeDir \<and> homeDir \<noteq> ''.'' \<and> homeDir \<noteq> ''/'' \<longrightarrow>
       Join [homeDir, ''fossils'', ''example.com''] = homeDir @ ''/fossils/example.com'' \<and>
       Join [homeDir, ''fossils'', ''example.com'', ''proj'']
         = homeDir @ ''/fossils/example.com/proj''"
    using Join_literal [of homeDir "''fossils''" "''example.com''"]
      Join_literal4 [of homeDir "''fossils''" "''example.com''" "''proj''"]
    by (simp add: small_facts)
  show ?thesis
    unfolding run
    apply (rule conjI)
     apply (simp add: clone_from_def parse_example Hostname_example small_facts assms T C
        Let_def executeCommand_def halt_def del: Join.simps)
    apply (rule conjI)
     apply (simp add: clone_from_def parse_example Hostname_example small_facts assms T C
        Let_def executeCommand_def halt_def command_def del: Join.simps)
    apply (rule lit)
    done
qed

theorem clone_example_layout_witness:
  "user_Current all_succeed = Some (''/home/bob'', ''bob'') \<and>
   outcome (cloneCmd all_succeed ''http://example.com/proj/home'') = Done \<and>
   Clean ''/home/bob'' = ''/home/bob'' \<and>
   directories (trace (cloneCmd all_succeed ''http://example.com/proj/home''))
     = [''/home/bob/fossils/example.com'', ''/home/bob/fossils/example.com/proj'']"
  using clone_example_layout [OF all_succeed_user]
  by (simp add: all_succeed_clone_example all_succeed_user del: Join.simps)

text \<open>
  Claim C8. A URL that ends in \<^verbatim>\<open>/home\<close> loses exactly that suffix, once: the rest
  of the workflow, which starts by parsing, receives \<open>s\<close> for the argument
  \<open>s @ ''/home''\<close>, also when \<open>s\<close> itself ends in \<^verbatim>\<open>/home\<close>. A URL that does not
  end in \<^verbatim>\<open>/home\<close> is passed on unmodified. The run ends in the invalid-URL error
  exactly when \<^verbatim>\<open>url.Parse\<close> rejects the trimmed URL.
\<close>

theorem clone_trims_home_once:
  "(HasSuffix fossilURL ''/home'' \<longrightarrow> TrimSuffix fossilURL ''/home'' @ ''/home'' = fossilURL) \<and>
   (\<not> HasSuffix fossilURL ''/home'' \<longrightarrow> TrimSuffix fossilURL ''/home'' = fossilURL) \<and>
   cloneCmd e fossilURL = clone_from e (TrimSuffix fossilURL ''/home'') \<and>
   cloneCmd e (s @ ''/home'') = clone_from e s \<and>
   (outcome (cloneCmd e fossilURL) = Fatal InvalidURL
      \<longleftrightarrow> isl (url_Parse (TrimSuffix fossilURL ''/home'')))"
proof -
  have "HasSuffix fossilURL ''/home'' \<longrightarrow> TrimSuffix fossilURL ''/home'' @ ''/home'' = fossilURL"
    by (auto simp: HasSuffix_iff)
  moreover have "\<not> HasSuffix fossilURL ''/home'' \<longrightarrow> TrimSuffix fossilURL ''/home'' = fossilURL"
    by (simp add: TrimSuffix_def)
  moreover have "outcome (clone_from e c) = Fatal InvalidURL \<longleftrightarrow> isl (url_Parse c)" for c
    by (simp add: clone_from_def halt_def Let_def executeCommand_def
          split: sum.splits option.splits prod.splits)
  ultimately show ?thesis by (simp add: cloneCmd_def)
qed

theorem clone_trims_home_once_witness:
  "HasSuffix ''http://example.com/proj/home/home'' ''/home'' \<and>
   cloneCmd all_succeed ''http://example.com/proj/home/home''
     = clone_from all_succeed ''http://example.com/proj/home'' \<and>
   \<not> HasSuffix ''http://example.com/proj'' ''/home'' \<and>
   TrimSuffix ''http://example.com/proj'' ''/home'' = ''http://example.com/proj''"
  using clone_trims_home_once [of "''http://example.com/proj/home/home''" all_succeed "''http://example.com/proj/home''"]
    clone_trims_home_once [of "''http://example.com/proj''" all_succeed "[]"]
  by (simp add: HasSuffix_def)

text \<open>
  Claim C10. When the parsed URL has the path \<^verbatim>\<open>""\<close> or \<^verbatim>\<open>"/"\<close>, the repository
  base name is \<^verbatim>\<open>.\<close>, the file name passed to \<^verbatim>\<open>fossil clone\<close> is \<^verbatim>\<open>..fossil\<close>, and
  the checkout directory is the target directory
  \<^verbatim>\<open>filepath.Join(homeDir, "fossils", host)\<close> itself: a run that ends normally
  asks for that one directory twice, and runs both \<^verbatim>\<open>fossil clone\<close> and
  \<^verbatim>\<open>fossil open ../..fossil\<close> in it.
\<close>

theorem clone_empty_path_layout:
  assumes "url_Parse (TrimSuffix fossilURL ''/home'') = Inr u"
    and "Path u = [] \<or> Path u = ''/''"
    and "user_Current e = Some (homeDir, username)"
  shows "TrimSuffix (Base (TrimPrefix (Path u) ''/'')) ''.fossil'' = ''.'' \<and>
    take 1 (directories (trace (cloneCmd e fossilURL)))
      = [Join [homeDir, ''fossils'', Hostname u]] \<and>
    (outcome (cloneCmd e fossilURL) = Done \<longrightarrow>
       directories (trace (cloneCmd e fossilURL))
         = [Join [homeDir, ''fossils'', Hostname u], Join [homeDir, ''fossils'', Hostname u]] \<and>
       invocations (trace (cloneCmd e fossilURL))
         = [\<lparr>cdir = Join [homeDir, ''fossils'', Hostname u], cprog = ''fossil'',
             cargs = [Lit ''clone'', URLString (u\<lparr>User := Some (username, None)\<rparr>), Lit ''..fossil''],
             cwiring = Interactive\<rparr>,
            command (Join [homeDir, ''fossils'', Hostname u]) ''fossil'' [''open'', ''../..fossil'']])"
proof -
  let ?T = "Join [homeDir, ''fossils'', Hostname u]"
  have p: "TrimPrefix (Path u) ''/'' = []"
    using assms(2) by (auto simp: small_facts)
  have T: "Join [homeDir, ''fossils'', Hostname u, ''.''] = ?T"
    using Join_dot [of "[homeDir, ''fossils'', Hostname u]"] by simp
  have "Join [?T, ''.''] = Join [homeDir, ''fossils'', Hostname u, ''.'']"
    using Join_Join [of "[homeDir, ''fossils'', Hostname u]" "''.''"] by simp
  with T have C: "Join [?T, ''.''] = ?T" by simp
  show ?thesis
    unfolding cloneCmd_def
    apply (rule conjI)
     apply (simp add: p small_facts)
    apply (rule conjI)
     apply (simp add: clone_from_def assms(1,3) p small_facts T C
        Let_def executeCommand_def halt_def del: Join.simps)
    apply (simp add: clone_from_def assms(1,3) p small_facts T C
        Let_def executeCommand_def halt_def command_def del: Join.simps)
    done
qed

theorem clone_empty_path_layout_witness:
  "directories (trace (cloneCmd all_succeed ''http://example.com''))
     = [''/home/bob/fossils/example.com'', ''/home/bob/fossils/example.com''] \<and>
   map cargs (invocations (trace (cloneCmd all_succeed ''http://example.com'')))
     = [[Lit ''clone'',
         URLString \<lparr>Scheme = ''http'', Opaque = [], User = Some (''bob'', None),
           Host = ''example.com'', Path = [], ForceQuery = False, RawQuery = [], Fragment = [],
           OmitHost = False\<rparr>,
         Lit ''..fossil''],
        [Lit ''open'', Lit ''../..fossil'']]"
  using clone_empty_path_layout [OF all_succeed_clone_example(4) _ all_succeed_user]
  by (simp add: all_succeed_clone_example command_def del: Join.simps)

end
